theory Spec2Isabelle
  imports Complex_Main
begin

section \<open>Python dictionaries\<close>

text \<open>
  A Python \<^verbatim>\<open>dict\<close> keeps its keys unique and in insertion order, and
  \<^verbatim>\<open>memo.items()\<close> iterates in that order. It is modelled as an association list;
  \<open>dict_set\<close> is \<^verbatim>\<open>d[k] = v\<close>: it overwrites the value of a key that is present (the
  key keeps its place) and appends a key that is new. \<open>map_of d k\<close> is the lookup, and
  \<open>map_of d k \<noteq> None\<close> is \<^verbatim>\<open>k in d\<close>.
\<close>

type_synonym ('k, 'v) dict = "('k \<times> 'v) list"

fun dict_set :: "('k, 'v) dict \<Rightarrow> 'k \<Rightarrow> 'v \<Rightarrow> ('k, 'v) dict" where
  "dict_set [] k v = [(k, v)]"
| "dict_set ((k', v') # d) k v =
     (if k' = k then (k, v) # d else (k', v') # dict_set d k v)"

section \<open>The memo reverser\<close>

text \<open>
  \<^verbatim>\<open>
  def _reverse_memo(memo):
      output = {}
      for key, item in memo.items():
          if item in output:
              output[item].append(key)
          else:
              output[item] = [key]
      return output
  \<close>
  \<open>reverse_step\<close> is the body of the loop, \<open>reverse_memo\<close> the loop from the empty
  dictionary.
\<close>

definition reverse_step ::
  "(string, string list) dict \<Rightarrow> string \<times> string \<Rightarrow> (string, string list) dict" where
  "reverse_step output ki =
     (case map_of output (snd ki) of
        Some l \<Rightarrow> dict_set output (snd ki) (l @ [fst ki])
      | None \<Rightarrow> dict_set output (snd ki) [fst ki])"

definition reverse_memo :: "(string, string) dict \<Rightarrow> (string, string list) dict" where
  "reverse_memo memo = foldl reverse_step [] memo"

text \<open>The sum of the lengths of the lists of a reverse memo.\<close>

definition total_forms :: "(string, string list) dict \<Rightarrow> nat" where
  "total_forms output = sum_list (map (\<lambda>sl. length (snd sl)) output)"

section \<open>Tables\<close>

text \<open>
  The table abstraction of the data frames: ordered named columns of one type each
  (strings, lists of strings, numbers; every cell may be null) sharing one row count.
\<close>

datatype column =
    StrCol "string option list"
  | ListCol "string list option list"
  | NumCol "real option list"

record table =
  nrows :: nat
  cols :: "(string, column) dict"

datatype error =
    ColumnNotFound string
  | SchemaError string
  | DuplicateError
  | ShapeError
  | KeyError string
  | NotFittedError
  | LibraryError string

fun col_length :: "column \<Rightarrow> nat" where
  "col_length (StrCol xs) = length xs"
| "col_length (ListCol xs) = length xs"
| "col_length (NumCol xs) = length xs"

definition wf_table :: "table \<Rightarrow> bool" where
  "wf_table t \<longleftrightarrow>
     distinct (map fst (cols t)) \<and> list_all (\<lambda>nc. col_length (snd nc) = nrows t) (cols t)"

section \<open>The collaborators\<close>

text \<open>
  The stemmer, the stop words, the one-hot encoder, the string functions of the frames
  and the vectorizer are libraries the program calls; the model takes what they compute
  as parameters.
  \<^item> \<open>stem\<close> is \<^verbatim>\<open>PorterStemmer().stem\<close> and \<open>stop\<close> the list of stop words.
  \<^item> \<open>get_dummies\<close> is the one-hot encoder, from the table, the names of the columns to
    encode and \<^verbatim>\<open>drop_first\<close>.
  \<^item> \<open>replace_all\<close> is \<^verbatim>\<open>str.replace_all\<close> on one string, from the pattern, the
    replacement and the string, with the character classes of the regular expressions of
    the library; \<open>to_lowercase\<close> is \<^verbatim>\<open>str.to_lowercase\<close> on one string.
  \<^item> \<open>non_string\<close> is what the string functions see of a column that is not a string
    column: the library raises, or casts the cells to strings.
  \<^item> \<open>on_repeat\<close> is what \<^verbatim>\<open>with_columns\<close> does with a list of expressions in which a
    column name occurs twice: \<open>None\<close> when the library accepts it, the error when it
    raises.
  \<^item> \<open>vectorizer_check\<close> is the error, if any, that the constructor of a vectorizer
    raises for a class, \<^verbatim>\<open>max_df\<close>, \<^verbatim>\<open>min_df\<close> and the stop words.
  \<^item> \<open>learn\<close> is the fitting of a vectorizer: from the class, \<^verbatim>\<open>max_df\<close>, \<^verbatim>\<open>min_df\<close>, the
    stop words and the documents of one column to the dense matrix (a list of rows, one
    for each document) and the vocabulary, or an error.
\<close>

datatype vectorizer_class = TfidfVectorizer | CountVectorizer

record env =
  stem :: "string \<Rightarrow> string"
  stop :: "string list"
  get_dummies :: "table \<Rightarrow> string list \<Rightarrow> bool \<Rightarrow> error + table"
  replace_all :: "string \<Rightarrow> string \<Rightarrow> string \<Rightarrow> string"
  to_lowercase :: "string \<Rightarrow> string"
  non_string :: "string \<Rightarrow> column \<Rightarrow> error + string option list"
  on_repeat :: "error option"
  vectorizer_check :: "vectorizer_class \<Rightarrow> real \<Rightarrow> real \<Rightarrow> string list \<Rightarrow> error option"
  learn :: "vectorizer_class \<Rightarrow> real \<Rightarrow> real \<Rightarrow> string list \<Rightarrow> string list
              \<Rightarrow> error + (real list list \<times> string list)"

section \<open>The tokenizer\<close>

text \<open>
  \<^verbatim>\<open>pl.col(t).str.replace_all('[^\s\w\d%]', '').str.to_lowercase().str.split(by=" ")\<close>

  \<open>pattern\<close> is the regular expression of the source, written with the code of the
  backslash. A null cell stays null.
\<close>

definition pattern :: string where
  "pattern = ''[^'' @ [CHR 0x5C, CHR ''s'', CHR 0x5C, CHR ''w'', CHR 0x5C, CHR ''d''] @ ''%]''"

definition cleaned :: "env \<Rightarrow> string \<Rightarrow> string" where
  "cleaned env s = to_lowercase env (replace_all env pattern [] s)"

text \<open>
  \<^verbatim>\<open>split\<close> cuts at every occurrence of the separator and keeps the empty pieces, so the
  result always has one more piece than the string has separators.
\<close>

fun split_by :: "char \<Rightarrow> string \<Rightarrow> string list" where
  "split_by sep [] = [[]]"
| "split_by sep (c # cs) =
     (if c = sep then [] # split_by sep cs
      else (case split_by sep cs of t # ts \<Rightarrow> (c # t) # ts | [] \<Rightarrow> [[c]]))"

definition tokenize :: "env \<Rightarrow> string \<Rightarrow> string list" where
  "tokenize env s = split_by CHR '' '' (cleaned env s)"

text \<open>
  \<^verbatim>\<open>with_columns\<close> evaluates the expression of every text column on the frame it is
  given and then stores each result under the name of its column. An expression raises
  when its column is no column of the frame; on a column that is not a string column it
  does what the library does (\<open>non_string\<close>). A name that occurs twice is stored twice,
  with the same cells, unless the library raises (\<open>on_repeat\<close>).
\<close>

definition text_expr :: "env \<Rightarrow> table \<Rightarrow> string \<Rightarrow> error + column" where
  "text_expr env df t =
     (case map_of (cols df) t of
        None \<Rightarrow> Inl (ColumnNotFound t)
      | Some (StrCol xs) \<Rightarrow> Inr (ListCol (map (map_option (tokenize env)) xs))
      | Some (ListCol xs) \<Rightarrow>
          (case non_string env t (ListCol xs) of
             Inl e \<Rightarrow> Inl e
           | Inr ys \<Rightarrow> Inr (ListCol (map (map_option (tokenize env)) ys)))
      | Some (NumCol xs) \<Rightarrow>
          (case non_string env t (NumCol xs) of
             Inl e \<Rightarrow> Inl e
           | Inr ys \<Rightarrow> Inr (ListCol (map (map_option (tokenize env)) ys))))"

fun text_exprs :: "env \<Rightarrow> table \<Rightarrow> string list \<Rightarrow> error + (string \<times> column) list" where
  "text_exprs env df [] = Inr []"
| "text_exprs env df (t # ts) =
     (case text_expr env df t of
        Inl e \<Rightarrow> Inl e
      | Inr col \<Rightarrow>
          (case text_exprs env df ts of
             Inl e \<Rightarrow> Inl e
           | Inr ncs \<Rightarrow> Inr ((t, col) # ncs)))"

definition assign_columns ::
  "(string, column) dict \<Rightarrow> (string \<times> column) list \<Rightarrow> (string, column) dict" where
  "assign_columns cs ncs = foldl (\<lambda>acc nc. dict_set acc (fst nc) (snd nc)) cs ncs"

definition with_columns :: "env \<Rightarrow> table \<Rightarrow> string list \<Rightarrow> error + table" where
  "with_columns env df text_cols =
     (case text_exprs env df text_cols of
        Inl e \<Rightarrow> Inl e
      | Inr ncs \<Rightarrow>
          (case (if distinct text_cols then None else on_repeat env) of
             Some e \<Rightarrow> Inl e
           | None \<Rightarrow> Inr (df\<lparr>cols := assign_columns (cols df) ncs\<rparr>)))"

section \<open>The stemmer with its memo\<close>

text \<open>
  The state of a run is the memo and the trace of what the run did: \<open>Probe w\<close> is
  the test \<^verbatim>\<open>w not in memo\<close>, \<open>Stem w\<close> a call \<^verbatim>\<open>ps.stem(w)\<close>, \<open>Store w\<close> the write
  \<^verbatim>\<open>memo[w] = ...\<close>, \<open>Load w v\<close> the read \<^verbatim>\<open>memo[w]\<close> that returned \<open>v\<close>, and
  \<open>Fit c docs\<close> the call \<^verbatim>\<open>vectorizer.fit_transform(new_list)\<close> made for the text
  column \<open>c\<close> with the documents \<open>docs\<close>.
\<close>

datatype event =
    Probe string
  | Stem string
  | Store string
  | Load string string
  | Fit string "string list"

record run_state =
  memo :: "(string, string) dict"
  trace :: "event list"

definition init_state :: run_state where
  "init_state = \<lparr>memo = [], trace = []\<rparr>"

text \<open>
  \<^verbatim>\<open>
  if w not in memo:
      memo[w] = ps.stem(w)
  new_tokens.append(memo[w])
  \<close>
  The read \<^verbatim>\<open>memo[w]\<close> raises \<^verbatim>\<open>KeyError\<close> on a key that is absent.
\<close>

definition stem_word ::
  "(string \<Rightarrow> string) \<Rightarrow> string \<Rightarrow> run_state \<Rightarrow> (error + string) \<times> run_state" where
  "stem_word ps w s =
     (let s1 = s\<lparr>trace := trace s @ [Probe w]\<rparr>;
          s2 = (if map_of (memo s1) w = None
                then s1\<lparr>memo := dict_set (memo s1) w (ps w),
                        trace := trace s1 @ [Stem w, Store w]\<rparr>
                else s1)
      in (case map_of (memo s2) w of
            None \<Rightarrow> (Inl (KeyError w), s2)
          | Some v \<Rightarrow> (Inr v, s2\<lparr>trace := trace s2 @ [Load w v]\<rparr>)))"

fun stem_tokens ::
  "(string \<Rightarrow> string) \<Rightarrow> string list \<Rightarrow> string list \<Rightarrow> run_state
     \<Rightarrow> (error + string list) \<times> run_state" where
  "stem_tokens ps [] new_tokens s = (Inr new_tokens, s)"
| "stem_tokens ps (w # ws) new_tokens s =
     (case stem_word ps w s of
        (Inl e, s') \<Rightarrow> (Inl e, s')
      | (Inr v, s') \<Rightarrow> stem_tokens ps ws (new_tokens @ [v]) s')"

text \<open>\<^verbatim>\<open>" ".join(new_tokens)\<close>\<close>

fun join :: "string \<Rightarrow> string list \<Rightarrow> string" where
  "join sep [] = []"
| "join sep [x] = x"
| "join sep (x # y # zs) = x @ sep @ join sep (y # zs)"

text \<open>
  \<^verbatim>\<open>if tokens:\<close> is Python's truth test: \<^verbatim>\<open>None\<close> and the empty list are both false.
\<close>

fun truthy :: "string list option \<Rightarrow> bool" where
  "truthy None = False"
| "truthy (Some ts) = (ts \<noteq> [])"

definition stem_row ::
  "(string \<Rightarrow> string) \<Rightarrow> string list option \<Rightarrow> run_state
     \<Rightarrow> (error + string) \<times> run_state" where
  "stem_row ps tokens s =
     (if truthy tokens
      then (case stem_tokens ps (case tokens of Some ts \<Rightarrow> ts | None \<Rightarrow> []) [] s of
              (Inl e, s') \<Rightarrow> (Inl e, s')
            | (Inr new_tokens, s') \<Rightarrow> (Inr (join '' '' new_tokens), s'))
      else (Inr ''Unknown'', s))"

text \<open>The loop \<^verbatim>\<open>for tokens in text_column\<close>, building \<^verbatim>\<open>new_list\<close>.\<close>

fun stem_column ::
  "(string \<Rightarrow> string) \<Rightarrow> string list option list \<Rightarrow> string list \<Rightarrow> run_state
     \<Rightarrow> (error + string list) \<times> run_state" where
  "stem_column ps [] new_list s = (Inr new_list, s)"
| "stem_column ps (tokens # rest) new_list s =
     (case stem_row ps tokens s of
        (Inl e, s') \<Rightarrow> (Inl e, s')
      | (Inr doc, s') \<Rightarrow> stem_column ps rest (new_list @ [doc]) s')"

section \<open>The vectorizer\<close>

text \<open>
  Modelled from the spec: the vectorizer object of the library, which is no part of the
  sources of the repository. Sections 1 and 4.3 of the specification take the vectorizer
  as a black box from the documents of one column and the configuration (method,
  \<^verbatim>\<open>max_df\<close>, \<^verbatim>\<open>min_df\<close>, stop words) to a matrix and an ordered vocabulary, fitted and
  transformed in one call for each column. The object keeps its configuration and the
  vocabulary of its last fit: \<open>fit_transform\<close> learns from the documents it is given
  (\<open>learn\<close>) and stores the vocabulary in the object, in place of what an earlier fit has
  stored; \<open>get_feature_names_out\<close> reads the stored vocabulary and raises on an object
  that has never been fitted.
\<close>

record vectorizer =
  v_class :: vectorizer_class
  v_max_df :: real
  v_min_df :: real
  v_stop_words :: "string list"
  v_vocabulary :: "string list option"

definition new_vectorizer ::
  "env \<Rightarrow> vectorizer_class \<Rightarrow> real \<Rightarrow> real \<Rightarrow> string list \<Rightarrow> error + vectorizer" where
  "new_vectorizer env k maxdf mindf stop_words =
     (case vectorizer_check env k maxdf mindf stop_words of
        Some e \<Rightarrow> Inl e
      | None \<Rightarrow>
          Inr \<lparr>v_class = k, v_max_df = maxdf, v_min_df = mindf, v_stop_words = stop_words,
               v_vocabulary = None\<rparr>)"

definition fit_transform ::
  "env \<Rightarrow> vectorizer \<Rightarrow> string list \<Rightarrow> error + (real list list \<times> vectorizer)" where
  "fit_transform env v docs =
     (case learn env (v_class v) (v_max_df v) (v_min_df v) (v_stop_words v) docs of
        Inl e \<Rightarrow> Inl e
      | Inr (X, vocabulary) \<Rightarrow> Inr (X, v\<lparr>v_vocabulary := Some vocabulary\<rparr>))"

definition get_feature_names_out :: "vectorizer \<Rightarrow> error + string list" where
  "get_feature_names_out v =
     (case v_vocabulary v of None \<Rightarrow> Inl NotFittedError | Some vocabulary \<Rightarrow> Inr vocabulary)"

section \<open>Frame operations of the assembler\<close>

text \<open>\<^verbatim>\<open>df2.get_column(c).to_list()\<close>: the cells of a list column, null as \<^verbatim>\<open>None\<close>.
  Every text column is a list column once \<open>with_columns\<close> has succeeded (lemma
  \<open>with_columns_list\<close>), so the loop never reads a column of another type; the
  model raises there.\<close>

definition get_column :: "table \<Rightarrow> string \<Rightarrow> error + string list option list" where
  "get_column df c =
     (case map_of (cols df) c of
        None \<Rightarrow> Inl (ColumnNotFound c)
      | Some (ListCol xs) \<Rightarrow> Inr xs
      | Some (StrCol xs) \<Rightarrow> Inl (SchemaError c)
      | Some (NumCol xs) \<Rightarrow> Inl (SchemaError c))"

definition drop_in_place :: "table \<Rightarrow> string \<Rightarrow> error + table" where
  "drop_in_place df c =
     (if map_of (cols df) c = None then Inl (ColumnNotFound c)
      else Inr (df\<lparr>cols := filter (\<lambda>nc. fst nc \<noteq> c) (cols df)\<rparr>))"

text \<open>
  \<^verbatim>\<open>pl.from_numpy(X.toarray(), columns=names)\<close>. The call gives no orientation, and the
  library takes it from the names: when there are as many names as the matrix has rows,
  it reads the matrix by columns, so that row \<open>i\<close> of the matrix becomes the column with
  the \<open>i\<close>-th name; otherwise it reads the matrix by rows, so that column \<open>j\<close> of the
  matrix becomes the column with the \<open>j\<close>-th name, and there must be as many names as
  the matrix has columns. The matrix is a list of rows of one length, \<open>width\<close>; a matrix
  without rows is given the width of the names.
\<close>

definition width :: "real list list \<Rightarrow> string list \<Rightarrow> nat" where
  "width X names = (case X of [] \<Rightarrow> length names | row # rest \<Rightarrow> length row)"

definition from_numpy :: "real list list \<Rightarrow> string list \<Rightarrow> error + table" where
  "from_numpy X names =
     (if \<not> list_all (\<lambda>row. length row = width X names) X then Inl ShapeError
      else if \<not> distinct names then Inl DuplicateError
      else if length names = length X
      then Inr \<lparr>nrows = width X names,
                 cols = map (\<lambda>i. (names ! i, NumCol (map Some (X ! i)))) [0..<length X]\<rparr>
      else if length names \<noteq> width X names then Inl ShapeError
      else Inr \<lparr>nrows = length X,
                 cols = map (\<lambda>j. (names ! j, NumCol (map (\<lambda>row. Some (row ! j)) X)))
                          [0..<length names]\<rparr>)"

text \<open>\<^verbatim>\<open>pl.concat(new_columns, how="horizontal")\<close>: the columns of all frames side by side,
  shorter frames filled up with nulls; a column name that occurs twice is an error.\<close>

fun pad_column :: "nat \<Rightarrow> column \<Rightarrow> column" where
  "pad_column n (StrCol xs) = StrCol (xs @ replicate (n - length xs) None)"
| "pad_column n (ListCol xs) = ListCol (xs @ replicate (n - length xs) None)"
| "pad_column n (NumCol xs) = NumCol (xs @ replicate (n - length xs) None)"

definition concat_horizontal :: "table list \<Rightarrow> error + table" where
  "concat_horizontal ts =
     (let n = foldr max (map nrows ts) 0;
          cs = concat (map (\<lambda>t. map (\<lambda>nc. (fst nc, pad_column n (snd nc))) (cols t)) ts)
      in if distinct (map fst cs) then Inr \<lparr>nrows = n, cols = cs\<rparr> else Inl DuplicateError)"

section \<open>The pipeline\<close>

text \<open>
  The names of the generated columns: \<^verbatim>\<open>get_dummies(..., prefix_sep = "::")\<close> names the
  indicator of a category by the column name, the separator and the category;
  \<^verbatim>\<open>c+"::word::"+x\<close> names the feature of a vocabulary term.
\<close>

definition one_hot_name :: "string \<Rightarrow> string \<Rightarrow> string" where
  "one_hot_name col category = col @ ''::'' @ category"

definition feature_name :: "string \<Rightarrow> string \<Rightarrow> string" where
  "feature_name c x = c @ ''::word::'' @ x"

text \<open>
  \<^verbatim>\<open>
  if vectorize_method == "tfidf":
      vectorizer = TfidfVectorizer(max_df = max_df, min_df = min_df, stop_words=list(stop))
  else:
      vectorizer = CountVectorizer(max_df = max_df, min_df = min_df, stop_words=list(stop))
  \<close>
\<close>

definition vectorizer_class_of :: "string \<Rightarrow> vectorizer_class" where
  "vectorizer_class_of vectorize_method =
     (if vectorize_method = ''tfidf'' then TfidfVectorizer else CountVectorizer)"

text \<open>
  The progress messages that the function prints are not part of the model.

  The body of \<^verbatim>\<open>for c in text_cols\<close>. The frame \<^verbatim>\<open>df2\<close> is the first element of
  \<^verbatim>\<open>new_columns\<close> and is changed in place there, so the loop carries the frame, the
  feature frames appended after it, the vectorizer object and the state of the run.
\<close>

fun process_columns ::
  "env \<Rightarrow> string list \<Rightarrow> vectorizer \<Rightarrow> table \<Rightarrow> table list \<Rightarrow> run_state
     \<Rightarrow> (error + table \<times> table list) \<times> run_state" where
  "process_columns env [] vectorizer df2 feats s = (Inr (df2, feats), s)"
| "process_columns env (c # cs) vectorizer df2 feats s =
     (case get_column df2 c of
        Inl e \<Rightarrow> (Inl e, s)
      | Inr text_column \<Rightarrow>
          (case stem_column (stem env) text_column [] s of
             (Inl e, s') \<Rightarrow> (Inl e, s')
           | (Inr new_list, s') \<Rightarrow>
               (let s'' = s'\<lparr>trace := trace s' @ [Fit c new_list]\<rparr>
                in (case fit_transform env vectorizer new_list of
                      Inl e \<Rightarrow> (Inl e, s'')
                    | Inr (X, vectorizer') \<Rightarrow>
                        (case get_feature_names_out vectorizer' of
                           Inl e \<Rightarrow> (Inl e, s'')
                         | Inr vocabulary \<Rightarrow>
                             (let names = map (feature_name c) vocabulary
                              in (case drop_in_place df2 c of
                                    Inl e \<Rightarrow> (Inl e, s'')
                                  | Inr df2' \<Rightarrow>
                                      (case from_numpy X names of
                                         Inl e \<Rightarrow> (Inl e, s'')
                                       | Inr f \<Rightarrow>
                                           process_columns env cs vectorizer' df2'
                                             (feats @ [f]) s''))))))))"

definition transform_text_data ::
  "env \<Rightarrow> table \<Rightarrow> string list \<Rightarrow> string list \<Rightarrow> bool \<Rightarrow> string \<Rightarrow> real \<Rightarrow> real
     \<Rightarrow> (error + table \<times> (string, string list) dict) \<times> run_state" where
  "transform_text_data env df one_hot_cols text_cols drop_first vectorize_method max_df min_df =
     (case get_dummies env df one_hot_cols drop_first of
        Inl e \<Rightarrow> (Inl e, init_state)
      | Inr d \<Rightarrow>
          (case with_columns env d text_cols of
             Inl e \<Rightarrow> (Inl e, init_state)
           | Inr df2 \<Rightarrow>
               (case new_vectorizer env (vectorizer_class_of vectorize_method)
                       max_df min_df (stop env) of
                  Inl e \<Rightarrow> (Inl e, init_state)
                | Inr vectorizer \<Rightarrow>
                    (case process_columns env text_cols vectorizer df2 [] init_state of
                       (Inl e, s) \<Rightarrow> (Inl e, s)
                     | (Inr (df2', feats), s) \<Rightarrow>
                         (case concat_horizontal (df2' # feats) of
                            Inl e \<Rightarrow> (Inl e, s)
                          | Inr df_final \<Rightarrow> (Inr (df_final, reverse_memo (memo s)), s))))))"

text \<open>
  The pipeline of the specification's words, for comparison: every text column gets a
  vectorizer constructed for it alone. \<open>mk\<close> is the constructor call, made anew for each
  column.
\<close>

fun process_columns_fresh ::
  "env \<Rightarrow> string list \<Rightarrow> error + vectorizer \<Rightarrow> table \<Rightarrow> table list \<Rightarrow> run_state
     \<Rightarrow> (error + table \<times> table list) \<times> run_state" where
  "process_columns_fresh env [] mk df2 feats s = (Inr (df2, feats), s)"
| "process_columns_fresh env (c # cs) mk df2 feats s =
     (case get_column df2 c of
        Inl e \<Rightarrow> (Inl e, s)
      | Inr text_column \<Rightarrow>
          (case stem_column (stem env) text_column [] s of
             (Inl e, s') \<Rightarrow> (Inl e, s')
           | (Inr new_list, s') \<Rightarrow>
               (let s'' = s'\<lparr>trace := trace s' @ [Fit c new_list]\<rparr>
                in (case mk of
                      Inl e \<Rightarrow> (Inl e, s'')
                    | Inr vectorizer \<Rightarrow>
                        (case fit_transform env vectorizer new_list of
                           Inl e \<Rightarrow> (Inl e, s'')
                         | Inr (X, vectorizer') \<Rightarrow>
                             (case get_feature_names_out vectorizer' of
                                Inl e \<Rightarrow> (Inl e, s'')
                              | Inr vocabulary \<Rightarrow>
                                  (let names = map (feature_name c) vocabulary
                                   in (case drop_in_place df2 c of
                                         Inl e \<Rightarrow> (Inl e, s'')
                                       | Inr df2' \<Rightarrow>
                                           (case from_numpy X names of
                                              Inl e \<Rightarrow> (Inl e, s'')
                                            | Inr f \<Rightarrow>
                                                process_columns_fresh env cs mk df2'
                                                  (feats @ [f]) s'')))))))))"

definition transform_text_data_fresh ::
  "env \<Rightarrow> table \<Rightarrow> string list \<Rightarrow> string list \<Rightarrow> bool \<Rightarrow> string \<Rightarrow> real \<Rightarrow> real
     \<Rightarrow> (error + table \<times> (string, string list) dict) \<times> run_state" where
  "transform_text_data_fresh env df one_hot_cols text_cols drop_first vectorize_method
       max_df min_df =
     (case get_dummies env df one_hot_cols drop_first of
        Inl e \<Rightarrow> (Inl e, init_state)
      | Inr d \<Rightarrow>
          (case with_columns env d text_cols of
             Inl e \<Rightarrow> (Inl e, init_state)
           | Inr df2 \<Rightarrow>
               (case process_columns_fresh env text_cols
                       (new_vectorizer env (vectorizer_class_of vectorize_method)
                          max_df min_df (stop env))
                       df2 [] init_state of
                  (Inl e, s) \<Rightarrow> (Inl e, s)
                | (Inr (df2', feats), s) \<Rightarrow>
                    (case concat_horizontal (df2' # feats) of
                       Inl e \<Rightarrow> (Inl e, s)
                     | Inr df_final \<Rightarrow> (Inr (df_final, reverse_memo (memo s)), s)))))"

section \<open>Notions used in the statements\<close>

text \<open>
  The library in which both vectorizer classes are the class \<open>k\<close>: whatever class is
  asked for, the constructor checks and the fitting learns as for \<open>k\<close>.
\<close>

definition only_class :: "vectorizer_class \<Rightarrow> env \<Rightarrow> env" where
  "only_class k env =
     env\<lparr>vectorizer_check := \<lambda>k'. vectorizer_check env k, learn := \<lambda>k'. learn env k\<rparr>"

text \<open>Two vectorizer objects of one configuration; the vocabularies of their last fits may differ.\<close>

definition same_config :: "vectorizer \<Rightarrow> vectorizer \<Rightarrow> bool" where
  "same_config v v' \<longleftrightarrow>
     v_class v = v_class v' \<and> v_max_df v = v_max_df v' \<and> v_min_df v = v_min_df v'
     \<and> v_stop_words v = v_stop_words v'"

text \<open>A frame all of whose columns have \<open>n\<close> rows.\<close>

definition has_rows :: "nat \<Rightarrow> table \<Rightarrow> bool" where
  "has_rows n t \<longleftrightarrow> nrows t = n \<and> list_all (\<lambda>nc. col_length (snd nc) = n) (cols t)"

text \<open>
  The invariant of the memo: it is a dictionary, every entry is the stem of its key,
  the stemmer has been called exactly once for each key and never for another word, and
  every read returned the entry of the memo.
\<close>

definition memo_inv :: "(string \<Rightarrow> string) \<Rightarrow> run_state \<Rightarrow> bool" where
  "memo_inv ps s \<longleftrightarrow>
     distinct (map fst (memo s))
     \<and> (\<forall>w v. (w, v) \<in> set (memo s) \<longrightarrow> v = ps w)
     \<and> (\<forall>w. count_list (trace s) (Stem w) = (if w \<in> fst ` set (memo s) then 1 else 0))
     \<and> (\<forall>w v. Load w v \<in> set (trace s) \<longrightarrow> (w, v) \<in> set (memo s))"

text \<open>
  The document of a row, as a function of its tokens and the stemmer alone.
\<close>

definition normalized_doc :: "(string \<Rightarrow> string) \<Rightarrow> string list option \<Rightarrow> string" where
  "normalized_doc ps tokens =
     (case tokens of
        None \<Rightarrow> ''Unknown''
      | Some ts \<Rightarrow> if ts = [] then ''Unknown'' else join '' '' (map ps ts))"

text \<open>The tokens that occur in the cells of a tokenized column.\<close>

definition column_tokens :: "string list option list \<Rightarrow> string set" where
  "column_tokens rows = (\<Union>tokens \<in> set rows. case tokens of None \<Rightarrow> {} | Some ts \<Rightarrow> set ts)"

text \<open>
  The state of the run after the rows of column \<open>c\<close> have been stemmed and its documents
  handed to the vectorizer.
\<close>

definition after_column ::
  "(string \<Rightarrow> string) \<Rightarrow> string \<Rightarrow> string list option list \<Rightarrow> run_state \<Rightarrow> run_state" where
  "after_column ps c rows s =
     (let s1 = snd (stem_column ps rows [] s)
      in s1\<lparr>trace := trace s1 @ [Fit c (map (normalized_doc ps) rows)]\<rparr>)"

text \<open>
  A string has an empty piece between separators when it starts or ends with the
  separator or has two separators in a row.
\<close>

fun adjacent :: "char \<Rightarrow> string \<Rightarrow> bool" where
  "adjacent sep (a # b # cs) = ((a = sep \<and> b = sep) \<or> adjacent sep (b # cs))"
| "adjacent sep [a] = False"
| "adjacent sep [] = False"

definition has_empty_piece :: "char \<Rightarrow> string \<Rightarrow> bool" where
  "has_empty_piece sep s \<longleftrightarrow> (s \<noteq> [] \<and> (hd s = sep \<or> last s = sep)) \<or> adjacent sep s"

section \<open>Example collaborators\<close>

text \<open>
  Stand-ins for the libraries, used to run the pipeline on concrete tables of ASCII
  text: a stemmer that strips a final \<open>s\<close>; an encoder of string columns; the
  replacement of the pattern and the lower case on ASCII characters; frames that raise
  on a column that is not a string column and accept a repeated name; and a vectorizer
  that counts the words of two or more letters that are not stop words, prunes them by
  document frequency and sorts the vocabulary. Its tf-idf class multiplies the count of a
  term by the number of documents over the document frequency of the term: a weight that
  differs from the count, not the weight of the library.
\<close>

definition example_stem :: "string \<Rightarrow> string" where
  "example_stem w = (if w \<noteq> [] \<and> last w = CHR ''s'' then butlast w else w)"

fun str_le :: "string \<Rightarrow> string \<Rightarrow> bool" where
  "str_le [] ys = True"
| "str_le (x # xs) [] = False"
| "str_le (x # xs) (y # ys) = ((of_char x :: nat) < of_char y \<or> (x = y \<and> str_le xs ys))"

fun insert_sorted :: "string \<Rightarrow> string list \<Rightarrow> string list" where
  "insert_sorted x [] = [x]"
| "insert_sorted x (y # ys) = (if str_le x y then x # y # ys else y # insert_sorted x ys)"

definition sort_strings :: "string list \<Rightarrow> string list" where
  "sort_strings xs = foldr insert_sorted xs []"

definition example_encode :: "table \<Rightarrow> string \<Rightarrow> bool \<Rightarrow> error + table" where
  "example_encode t c dropf =
     (case map_of (cols t) c of
        Some (StrCol cells) \<Rightarrow>
          (let cats = sort_strings
                 (remdups (concat (map (\<lambda>x. case x of None \<Rightarrow> [] | Some a \<Rightarrow> [a]) cells)));
               kept = (if dropf then tl cats else cats)
           in Inr (t\<lparr>cols := filter (\<lambda>nc. fst nc \<noteq> c) (cols t)
                      @ map (\<lambda>cat. (one_hot_name c cat,
                               NumCol (map (\<lambda>x. Some (if x = Some cat then 1 else 0)) cells)))
                          kept\<rparr>))
      | _ \<Rightarrow> Inl (KeyError c))"

fun example_get_dummies :: "table \<Rightarrow> string list \<Rightarrow> bool \<Rightarrow> error + table" where
  "example_get_dummies t [] dropf = Inr t"
| "example_get_dummies t (c # cs) dropf =
     (case example_encode t c dropf of
        Inl e \<Rightarrow> Inl e
      | Inr t' \<Rightarrow> example_get_dummies t' cs dropf)"

definition is_space :: "char \<Rightarrow> bool" where
  "is_space c \<longleftrightarrow> c \<in> set [CHR '' '', CHR 0x09, CHR 0x0A, CHR 0x0B, CHR 0x0C, CHR 0x0D]"

definition lower_letters :: string where
  "lower_letters = ''abcdefghijklmnopqrstuvwxyz''"

definition upper_letters :: string where
  "upper_letters = ''ABCDEFGHIJKLMNOPQRSTUVWXYZ''"

definition digits :: string where
  "digits = ''0123456789''"

definition is_word :: "char \<Rightarrow> bool" where
  "is_word c \<longleftrightarrow> c \<in> set lower_letters \<or> c \<in> set upper_letters \<or> c \<in> set digits \<or> c = CHR ''_''"

definition keep_char :: "char \<Rightarrow> bool" where
  "keep_char c \<longleftrightarrow> is_space c \<or> is_word c \<or> c = CHR ''%''"

definition example_replace_all :: "string \<Rightarrow> string \<Rightarrow> string \<Rightarrow> string" where
  "example_replace_all p r s =
     (if p = pattern then concat (map (\<lambda>c. if keep_char c then [c] else r) s) else s)"

definition lower_char :: "char \<Rightarrow> char" where
  "lower_char c = (case map_of (zip upper_letters lower_letters) c of Some l \<Rightarrow> l | None \<Rightarrow> c)"

definition example_to_lowercase :: "string \<Rightarrow> string" where
  "example_to_lowercase s = map lower_char s"

definition example_terms :: "string list \<Rightarrow> string \<Rightarrow> string list" where
  "example_terms sw doc =
     filter (\<lambda>t. 2 \<le> length t \<and> t \<notin> set sw) (split_by CHR '' '' (example_to_lowercase doc))"

definition example_weight :: "vectorizer_class \<Rightarrow> nat \<Rightarrow> nat \<Rightarrow> nat \<Rightarrow> real" where
  "example_weight k n dfreq tf =
     (case k of CountVectorizer \<Rightarrow> real tf | TfidfVectorizer \<Rightarrow> real tf * real n / real dfreq)"

definition example_learn ::
  "vectorizer_class \<Rightarrow> real \<Rightarrow> real \<Rightarrow> string list \<Rightarrow> string list
     \<Rightarrow> error + (real list list \<times> string list)" where
  "example_learn k maxdf mindf sw docs =
     (let n = length docs;
          terms = sort_strings (remdups (concat (map (example_terms sw) docs)));
          dfreq = (\<lambda>t. length (filter (\<lambda>d. t \<in> set (example_terms sw d)) docs));
          vocab = filter (\<lambda>t. mindf * real n \<le> real (dfreq t)
                              \<and> real (dfreq t) \<le> maxdf * real n) terms
      in if maxdf * real n < mindf * real n then Inl (LibraryError ''max_df < min_df'')
         else if vocab = [] then Inl (LibraryError ''empty vocabulary'')
         else Inr (map (\<lambda>d. map (\<lambda>t. example_weight k n (dfreq t)
                                       (count_list (example_terms sw d) t)) vocab) docs,
                   vocab))"

definition example_env :: env where
  "example_env =
     \<lparr>stem = example_stem, stop = [''the'', ''is''], get_dummies = example_get_dummies,
      replace_all = example_replace_all, to_lowercase = example_to_lowercase,
      non_string = (\<lambda>t col. Inl (SchemaError t)), on_repeat = None,
      vectorizer_check = (\<lambda>k maxdf mindf sw. None), learn = example_learn\<rparr>"

text \<open>
  A table of three rows whose text column gives three features, its encoded table, and
  the result and final state of its run.
\<close>

definition example_table :: table where
  "example_table =
     \<lparr>nrows = 3,
      cols = [(''category'', StrCol [Some ''a'', Some ''b'', Some ''a'']),
              (''review'', StrCol [Some ''Good products'', None, Some ''good  Product!!''])]\<rparr>"

definition example_encoded :: table where
  "example_encoded =
     \<lparr>nrows = 3,
      cols = [(''review'', StrCol [Some ''Good products'', None, Some ''good  Product!!'']),
              (''category::a'', NumCol [Some 1, Some 0, Some 1]),
              (''category::b'', NumCol [Some 0, Some 1, Some 0])]\<rparr>"

definition example_frame :: table where
  "example_frame =
     \<lparr>nrows = 3,
      cols = [(''category::a'', NumCol [Some 1, Some 0, Some 1]),
              (''category::b'', NumCol [Some 0, Some 1, Some 0]),
              (''review::word::good'', NumCol [Some 1, Some 1, Some 0]),
              (''review::word::product'', NumCol [Some 0, Some 0, Some 1]),
              (''review::word::unknown'', NumCol [Some 1, Some 1, Some 0])]\<rparr>"

definition example_reverse :: "(string, string list) dict" where
  "example_reverse =
     [(''good'', [''good'']), (''product'', [''products'', ''product'']), ([], [[]])]"

definition example_state :: run_state where
  "example_state =
     \<lparr>memo = [(''good'', ''good''), (''products'', ''product''), ([], []),
              (''product'', ''product'')],
      trace = [Probe ''good'', Stem ''good'', Store ''good'', Load ''good'' ''good'',
               Probe ''products'', Stem ''products'', Store ''products'',
               Load ''products'' ''product'', Probe ''good'', Load ''good'' ''good'',
               Probe [], Stem [], Store [], Load [] [],
               Probe ''product'', Stem ''product'', Store ''product'',
               Load ''product'' ''product'',
               Fit ''review'' [''good product'', ''Unknown'', ''good  product'']]\<rparr>"

text \<open>A second table, with two text columns, and the result and final state of its run.\<close>

definition example_table2 :: table where
  "example_table2 =
     \<lparr>nrows = 2,
      cols = [(''title'', StrCol [Some ''Red cats'', Some ''red dog'']),
              (''body'', StrCol [Some ''dogs run'', Some ''cats'']),
              (''price'', NumCol [Some 3, None])]\<rparr>"

definition example_frame2 :: table where
  "example_frame2 =
     \<lparr>nrows = 2,
      cols = [(''price'', NumCol [Some 3, None]),
              (''title::word::cat'', NumCol [Some 1, Some 0]),
              (''title::word::dog'', NumCol [Some 0, Some 1]),
              (''title::word::red'', NumCol [Some 1, Some 1]),
              (''body::word::cat'', NumCol [Some 0, Some 1]),
              (''body::word::dog'', NumCol [Some 1, Some 0]),
              (''body::word::run'', NumCol [Some 1, Some 0])]\<rparr>"

definition example_reverse2 :: "(string, string list) dict" where
  "example_reverse2 =
     [(''red'', [''red'']), (''cat'', [''cats'']), (''dog'', [''dog'', ''dogs'']),
      (''run'', [''run''])]"

definition example_state2 :: run_state where
  "example_state2 =
     \<lparr>memo = [(''red'', ''red''), (''cats'', ''cat''), (''dog'', ''dog''),
              (''dogs'', ''dog''), (''run'', ''run'')],
      trace = [Probe ''red'', Stem ''red'', Store ''red'', Load ''red'' ''red'',
               Probe ''cats'', Stem ''cats'', Store ''cats'', Load ''cats'' ''cat'',
               Probe ''red'', Load ''red'' ''red'',
               Probe ''dog'', Stem ''dog'', Store ''dog'', Load ''dog'' ''dog'',
               Fit ''title'' [''red cat'', ''red dog''],
               Probe ''dogs'', Stem ''dogs'', Store ''dogs'', Load ''dogs'' ''dog'',
               Probe ''run'', Stem ''run'', Store ''run'', Load ''run'' ''run'',
               Probe ''cats'', Load ''cats'' ''cat'',
               Fit ''body'' [''dog run'', ''cat'']]\<rparr>"




text \<open>The encoded example table and the third table after the tokenizing step.\<close>

definition example_tokenized :: table where
  "example_tokenized =
     \<lparr>nrows = 3,
      cols = [(''review'', ListCol [Some [''good'', ''products''], None,
                                   Some [''good'', [], ''product'']]),
              (''category::a'', NumCol [Some 1, Some 0, Some 1]),
              (''category::b'', NumCol [Some 0, Some 1, Some 0])]\<rparr>"


text \<open>
  The example libraries with a vectorizer constructor that rejects a negative threshold.
\<close>

definition example_env_checked :: env where
  "example_env_checked =
     example_env\<lparr>vectorizer_check := (\<lambda>k maxdf mindf sw.
        if maxdf < 0 \<or> mindf < 0 then Some (LibraryError ''negative value for max_df or min_df'')
        else None)\<rparr>"

text \<open>The raw tokens of a memo that have the stem \<open>s\<close>, in the order of the memo.\<close>

definition forms_of :: "(string, string) dict \<Rightarrow> string \<Rightarrow> string list" where
  "forms_of m s = map fst (filter (\<lambda>kv. snd kv = s) m)"


section \<open>Properties of dictionaries\<close>

lemma map_of_dict_set: "map_of (dict_set d k v) = (map_of d)(k \<mapsto> v)"
  by (induction d) (auto simp: fun_eq_iff)

lemma keys_dict_set_new:
  "map_of d k = None \<Longrightarrow> map fst (dict_set d k v) = map fst d @ [k]"
  by (induction d) (auto split: if_splits)

lemma keys_dict_set_old:
  "map_of d k \<noteq> None \<Longrightarrow> map fst (dict_set d k v) = map fst d"
  by (induction d) auto

lemma dict_set_new: "map_of d k = None \<Longrightarrow> dict_set d k v = d @ [(k, v)]"
  by (induction d) (auto split: if_splits)

lemma distinct_dict_set:
  "distinct (map fst d) \<Longrightarrow> distinct (map fst (dict_set d k v))"
proof (cases "map_of d k")
  case None
  assume "distinct (map fst d)"
  moreover from None have "k \<notin> set (map fst d)"
    by (simp add: map_of_eq_None_iff)
  ultimately show ?thesis using None by (simp add: keys_dict_set_new)
next
  case (Some a)
  assume "distinct (map fst d)"
  then show ?thesis using Some by (simp add: keys_dict_set_old)
qed

section \<open>Example runs\<close>

lemmas example_defs =
  example_stem_def example_encode_def sort_strings_def example_terms_def example_weight_def
  example_learn_def example_env_def example_replace_all_def example_to_lowercase_def
  transform_text_data_def with_columns_def text_expr_def assign_columns_def tokenize_def
  cleaned_def pattern_def lower_char_def keep_char_def is_space_def is_word_def
  lower_letters_def upper_letters_def digits_def
  new_vectorizer_def fit_transform_def get_feature_names_out_def width_def
  stem_word_def stem_row_def init_state_def get_column_def drop_in_place_def from_numpy_def
  concat_horizontal_def one_hot_name_def feature_name_def vectorizer_class_of_def
  reverse_memo_def reverse_step_def Let_def

lemma example_dummies:
  "get_dummies example_env example_table [''category''] False = Inr example_encoded"
  by (simp add: example_defs example_table_def example_encoded_def)

lemma example_run:
  "transform_text_data example_env example_table [''category''] [''review''] False ''count'' 1 0
     = (Inr (example_frame, example_reverse), example_state)"
  by (simp add: example_defs example_table_def example_frame_def example_reverse_def
      example_state_def)

lemma example_run2:
  "transform_text_data example_env example_table2 [] [''title'', ''body''] False ''count'' 1 0
     = (Inr (example_frame2, example_reverse2), example_state2)"
  by (simp add: example_defs example_table2_def example_frame2_def example_reverse2_def
      example_state2_def)

lemma example_run2_tfidf:
  "fst (transform_text_data example_env example_table2 [] [''title'', ''body''] False ''tfidf'' 1 0)
     \<noteq> Inr (example_frame2, example_reverse2)"
  by (simp add: example_defs example_table2_def example_frame2_def example_reverse2_def)


lemma example_with_columns:
  "with_columns example_env example_encoded [''review''] = Inr example_tokenized"
  by (simp add: example_defs example_encoded_def example_tokenized_def)


section \<open>The memo reverser: completeness\<close>

lemma reverse_memo_snoc: "reverse_memo (xs @ [x]) = reverse_step (reverse_memo xs) x"
  by (simp add: reverse_memo_def)

lemma total_forms_append: "total_forms (d @ [(k, l)]) = total_forms d + length l"
  by (simp add: total_forms_def)

lemma total_forms_dict_set_old:
  "map_of d k = Some l \<Longrightarrow> total_forms (dict_set d k (l @ [x])) = Suc (total_forms d)"
  by (induction d) (auto simp: total_forms_def)

lemma total_forms_step:
  "total_forms (reverse_step R x) = Suc (total_forms R)"
  by (cases "map_of R (snd x)")
     (simp_all add: reverse_step_def dict_set_new total_forms_append total_forms_dict_set_old)

lemma total_forms_reverse_memo: "total_forms (reverse_memo xs) = length xs"
  by (induction xs rule: rev_induct)
     (simp_all add: reverse_memo_snoc total_forms_step, simp add: reverse_memo_def total_forms_def)

lemma distinct_reverse_step:
  "distinct (map fst R) \<Longrightarrow> distinct (map fst (reverse_step R x))"
  by (simp add: reverse_step_def distinct_dict_set split: option.splits)

lemma distinct_reverse_memo: "distinct (map fst (reverse_memo xs))"
  by (induction xs rule: rev_induct)
     (simp_all add: reverse_memo_snoc distinct_reverse_step, simp add: reverse_memo_def)

lemma map_of_reverse_memo:
  "map_of (reverse_memo xs) s =
     (if s \<in> snd ` set xs then Some (forms_of xs s) else None)"
proof (induction xs arbitrary: s rule: rev_induct)
  case Nil
  show ?case by (simp add: reverse_memo_def)
next
  case (snoc x xs)
  show ?case
  proof (cases "snd x \<in> snd ` set xs")
    case False
    then have none: "map_of (reverse_memo xs) (snd x) = None"
      by (simp add: snoc)
    from False have empty: "filter (\<lambda>kv. snd kv = snd x) xs = []"
      by (auto simp: filter_empty_conv intro: rev_image_eqI)
    show ?thesis
      by (simp add: reverse_memo_snoc reverse_step_def none map_of_dict_set snoc forms_of_def empty)
  next
    case True
    then have some: "map_of (reverse_memo xs) (snd x) = Some (forms_of xs (snd x))"
      by (simp add: snoc)
    show ?thesis using True
      by (simp add: reverse_memo_snoc reverse_step_def some map_of_dict_set snoc forms_of_def)
  qed
qed

lemma distinct_forms_of: "distinct (map fst m) \<Longrightarrow> distinct (forms_of m s)"
  by (simp add: forms_of_def distinct_map_filter)

lemma set_forms_of: "set (forms_of m s) = {k. (k, s) \<in> set m}"
  by (auto simp: forms_of_def image_iff)

lemma reverse_memo_entries:
  "(s, l) \<in> set (reverse_memo m) \<longleftrightarrow> s \<in> snd ` set m \<and> l = forms_of m s"
  using map_of_eq_Some_iff [OF distinct_reverse_memo, of m s l]
  by (simp add: map_of_reverse_memo split: if_splits) force+

text \<open>
  C2: for a memo (a dictionary, so its keys are distinct) the reverse memo is a
  dictionary that puts every raw token of the memo in the list of its stem, once, and in
  no other list; the lengths of the lists add up to the number of distinct raw tokens;
  and the keys of the reverse memo are exactly the values of the memo.
\<close>

theorem reverse_memo_complete:
  assumes "distinct (map fst m)"
  shows "distinct (map fst (reverse_memo m))
    \<and> (\<forall>(k, v) \<in> set m. \<exists>l. (v, l) \<in> set (reverse_memo m) \<and> k \<in> set l)
    \<and> (\<forall>(k, v) \<in> set m. \<forall>(s, l) \<in> set (reverse_memo m). k \<in> set l \<longrightarrow> s = v)
    \<and> (\<forall>(s, l) \<in> set (reverse_memo m). distinct l)
    \<and> total_forms (reverse_memo m) = card (fst ` set m)
    \<and> fst ` set (reverse_memo m) = snd ` set m"
proof -
  let ?R = "reverse_memo m"
  have dR: "distinct (map fst ?R)" by (rule distinct_reverse_memo)
  note mem = reverse_memo_entries [of _ _ m]
  have a: "\<forall>(k, v) \<in> set m. \<exists>l. (v, l) \<in> set ?R \<and> k \<in> set l"
    by (auto simp: mem set_forms_of rev_image_eqI)
  have b: "\<forall>(k, v) \<in> set m. \<forall>(s, l) \<in> set ?R. k \<in> set l \<longrightarrow> s = v"
    using assms by (auto simp: mem set_forms_of dest: eq_key_imp_eq_value)
  have c: "\<forall>(s, l) \<in> set ?R. distinct l"
    using assms by (auto simp: mem distinct_forms_of)
  have d: "total_forms ?R = card (fst ` set m)"
    using distinct_card [OF assms] by (simp add: total_forms_reverse_memo)
  have e: "fst ` set ?R = snd ` set m"
  proof (rule set_eqI)
    fix s
    have "s \<in> fst ` set ?R \<longleftrightarrow> (\<exists>l. (s, l) \<in> set ?R)" by force
    then show "s \<in> fst ` set ?R \<longleftrightarrow> s \<in> snd ` set m" by (simp add: mem)
  qed
  from dR a b c d e show ?thesis by blast
qed

theorem reverse_memo_complete_witness:
  "distinct (map fst [(''running'', ''run''), (''runs'', ''run''), (''cat'', ''cat'')])
   \<and> reverse_memo [(''running'', ''run''), (''runs'', ''run''), (''cat'', ''cat'')]
       = [(''run'', [''running'', ''runs'']), (''cat'', [''cat''])]
   \<and> total_forms (reverse_memo [(''running'', ''run''), (''runs'', ''run''), (''cat'', ''cat'')]) = 3"
  using reverse_memo_complete [of "[(''running'', ''run''), (''runs'', ''run''), (''cat'', ''cat'')]"]
  by (simp add: reverse_memo_def reverse_step_def total_forms_def)

section \<open>The stemmer: invariant and result\<close>

lemma stem_word_cases:
  "stem_word ps w s =
     (case map_of (memo s) w of
        None \<Rightarrow> (Inr (ps w), s\<lparr>memo := memo s @ [(w, ps w)],
                   trace := trace s @ [Probe w, Stem w, Store w, Load w (ps w)]\<rparr>)
      | Some v \<Rightarrow> (Inr v, s\<lparr>trace := trace s @ [Probe w, Load w v]\<rparr>))"
  by (auto simp: stem_word_def Let_def map_of_dict_set dict_set_new map_add_def split: option.splits)

lemma memo_inv_init: "memo_inv ps init_state"
  by (simp add: memo_inv_def init_state_def)

lemma stem_word_inv:
  assumes "memo_inv ps s" and "stem_word ps w s = (r, s')"
  shows "r = Inr (ps w) \<and> memo_inv ps s' \<and> fst ` set (memo s') = insert w (fst ` set (memo s))"
proof (cases "map_of (memo s) w")
  case None
  then have notin: "w \<notin> fst ` set (memo s)" by (simp add: map_of_eq_None_iff)
  from assms(2) None have r: "r = Inr (ps w)"
    and s': "s' = s\<lparr>memo := memo s @ [(w, ps w)],
                   trace := trace s @ [Probe w, Stem w, Store w, Load w (ps w)]\<rparr>"
    by (simp_all add: stem_word_cases)
  from assms(1) notin have "memo_inv ps s'"
    unfolding memo_inv_def s' by (auto simp: image_iff)
  with r s' show ?thesis by auto
next
  case (Some v)
  from assms(2) Some have r: "r = Inr v" and s': "s' = s\<lparr>trace := trace s @ [Probe w, Load w v]\<rparr>"
    by (simp_all add: stem_word_cases)
  from Some have mem: "(w, v) \<in> set (memo s)" by (rule map_of_SomeD)
  with assms(1) have v: "v = ps w" by (simp add: memo_inv_def)
  from assms(1) mem have "memo_inv ps s'"
    unfolding memo_inv_def s' by auto
  moreover from mem have "insert w (fst ` set (memo s)) = fst ` set (memo s)" by force
  ultimately show ?thesis using r v s' by simp
qed

lemma stem_tokens_inv:
  "memo_inv ps s \<Longrightarrow> stem_tokens ps ws acc s = (r, s') \<Longrightarrow>
   r = Inr (acc @ map ps ws) \<and> memo_inv ps s' \<and> fst ` set (memo s') = fst ` set (memo s) \<union> set ws"
proof (induction ws arbitrary: acc s)
  case Nil
  then show ?case by simp
next
  case (Cons w ws)
  obtain r1 s1 where w: "stem_word ps w s = (r1, s1)" by (cases "stem_word ps w s")
  from stem_word_inv [OF Cons.prems(1) w]
  have r1: "r1 = Inr (ps w)" and inv1: "memo_inv ps s1"
    and keys1: "fst ` set (memo s1) = insert w (fst ` set (memo s))" by simp_all
  from Cons.prems(2) w r1 have "stem_tokens ps ws (acc @ [ps w]) s1 = (r, s')" by simp
  from Cons.IH [OF inv1 this] keys1 show ?case by auto
qed

lemma stem_row_inv:
  assumes "memo_inv ps s" and "stem_row ps tokens s = (r, s')"
  shows "r = Inr (normalized_doc ps tokens) \<and> memo_inv ps s'
    \<and> fst ` set (memo s') = fst ` set (memo s) \<union> (case tokens of None \<Rightarrow> {} | Some ts \<Rightarrow> set ts)"
proof (cases "truthy tokens")
  case False
  with assms show ?thesis
    by (cases tokens) (auto simp: stem_row_def normalized_doc_def)
next
  case True
  then obtain ts where ts: "tokens = Some ts" "ts \<noteq> []" by (cases tokens) auto
  obtain r1 s1 where t: "stem_tokens ps ts [] s = (r1, s1)" by (cases "stem_tokens ps ts [] s")
  from stem_tokens_inv [OF assms(1) t] assms(2) t ts show ?thesis
    by (auto simp: stem_row_def normalized_doc_def)
qed

lemma stem_column_inv:
  "memo_inv ps s \<Longrightarrow> stem_column ps rows acc s = (r, s') \<Longrightarrow>
   r = Inr (acc @ map (normalized_doc ps) rows) \<and> memo_inv ps s'
   \<and> fst ` set (memo s') = fst ` set (memo s) \<union> column_tokens rows"
proof (induction rows arbitrary: acc s)
  case Nil
  then show ?case by (simp add: column_tokens_def)
next
  case (Cons tokens rows)
  obtain r1 s1 where w: "stem_row ps tokens s = (r1, s1)" by (cases "stem_row ps tokens s")
  from stem_row_inv [OF Cons.prems(1) w]
  have r1: "r1 = Inr (normalized_doc ps tokens)" and inv1: "memo_inv ps s1"
    and keys1: "fst ` set (memo s1) = fst ` set (memo s) \<union> (case tokens of None \<Rightarrow> {} | Some ts \<Rightarrow> set ts)"
    by simp_all
  from Cons.prems(2) w r1
  have "stem_column ps rows (acc @ [normalized_doc ps tokens]) s1 = (r, s')" by simp
  from Cons.IH [OF inv1 this] keys1 show ?case by (auto simp: column_tokens_def)
qed

lemma stem_word_fit:
  "stem_word ps w s = (r, s') \<Longrightarrow> Fit c d \<in> set (trace s') \<longleftrightarrow> Fit c d \<in> set (trace s)"
  by (auto simp: stem_word_cases split: option.splits)

lemma stem_tokens_fit:
  "stem_tokens ps ws acc s = (r, s') \<Longrightarrow> Fit c d \<in> set (trace s') \<longleftrightarrow> Fit c d \<in> set (trace s)"
proof (induction ws arbitrary: acc s)
  case Nil
  then show ?case by simp
next
  case (Cons w ws)
  obtain r1 s1 where w: "stem_word ps w s = (r1, s1)" by (cases "stem_word ps w s")
  show ?case
  proof (cases r1)
    case (Inl e)
    with Cons.prems w stem_word_fit [OF w] show ?thesis by simp
  next
    case (Inr v)
    with Cons.prems w have "stem_tokens ps ws (acc @ [v]) s1 = (r, s')" by simp
    from Cons.IH [OF this] stem_word_fit [OF w] show ?thesis by simp
  qed
qed

lemma stem_row_fit:
  "stem_row ps tokens s = (r, s') \<Longrightarrow> Fit c d \<in> set (trace s') \<longleftrightarrow> Fit c d \<in> set (trace s)"
  by (auto simp: stem_row_def split: if_splits prod.splits sum.splits dest: stem_tokens_fit)

lemma stem_column_fit:
  "stem_column ps rows acc s = (r, s') \<Longrightarrow> Fit c d \<in> set (trace s') \<longleftrightarrow> Fit c d \<in> set (trace s)"
proof (induction rows arbitrary: acc s)
  case Nil
  then show ?case by simp
next
  case (Cons tokens rows)
  obtain r1 s1 where w: "stem_row ps tokens s = (r1, s1)" by (cases "stem_row ps tokens s")
  show ?case
  proof (cases r1)
    case (Inl e)
    with Cons.prems w stem_row_fit [OF w] show ?thesis by simp
  next
    case (Inr v)
    with Cons.prems w have "stem_column ps rows (acc @ [v]) s1 = (r, s')" by simp
    from Cons.IH [OF this] stem_row_fit [OF w] show ?thesis by simp
  qed
qed

lemma memo_inv_fit: "memo_inv ps (s\<lparr>trace := trace s @ [Fit c d]\<rparr>) = memo_inv ps s"
  by (simp add: memo_inv_def)

lemma after_column_inv:
  assumes "memo_inv ps s"
  shows "memo_inv ps (after_column ps c rows s)"
    and "fst ` set (memo (after_column ps c rows s)) = fst ` set (memo s) \<union> column_tokens rows"
    and "Fit c' d \<in> set (trace (after_column ps c rows s))
           \<longleftrightarrow> Fit c' d \<in> set (trace s) \<or> (c' = c \<and> d = map (normalized_doc ps) rows)"
proof -
  obtain r1 s1 where w: "stem_column ps rows [] s = (r1, s1)" by (cases "stem_column ps rows [] s")
  from stem_column_inv [OF assms w] stem_column_fit [OF w, of c' d]
  show "memo_inv ps (after_column ps c rows s)"
    and "fst ` set (memo (after_column ps c rows s)) = fst ` set (memo s) \<union> column_tokens rows"
    and "Fit c' d \<in> set (trace (after_column ps c rows s))
           \<longleftrightarrow> Fit c' d \<in> set (trace s) \<or> (c' = c \<and> d = map (normalized_doc ps) rows)"
    by (auto simp: after_column_def w memo_inv_fit)
qed

lemma process_columns_step:
  assumes "memo_inv (stem env) s" and "process_columns env (c # cs) v df2 feats s = (r, s')"
  obtains (nocol) e where "get_column df2 c = Inl e" "r = Inl e" "s' = s"
  | (fail) rows e where "get_column df2 c = Inr rows" "r = Inl e"
      "s' = after_column (stem env) c rows s"
  | (step) rows X v' df2' f vocabulary where "get_column df2 c = Inr rows"
      "fit_transform env v (map (normalized_doc (stem env)) rows) = Inr (X, v')"
      "drop_in_place df2 c = Inr df2'"
      "from_numpy X (map (feature_name c) vocabulary) = Inr f"
      "process_columns env cs v' df2' (feats @ [f]) (after_column (stem env) c rows s) = (r, s')"
      "get_feature_names_out v' = Inr vocabulary"
proof (cases "get_column df2 c")
  case (Inl e)
  with assms(2) nocol show ?thesis by simp
next
  case (Inr rows)
  obtain r1 s1 where w: "stem_column (stem env) rows [] s = (r1, s1)"
    by (cases "stem_column (stem env) rows [] s")
  from stem_column_inv [OF assms(1) w]
  have r1: "r1 = Inr (map (normalized_doc (stem env)) rows)" by simp
  have a: "after_column (stem env) c rows s
             = s1\<lparr>trace := trace s1 @ [Fit c (map (normalized_doc (stem env)) rows)]\<rparr>"
    by (simp add: after_column_def w)
  from assms(2) Inr w r1 a fail [OF Inr] step [OF Inr] show ?thesis
    by (auto simp: Let_def split: sum.splits prod.splits)
qed

section \<open>The loop over the text columns\<close>

lemma map_of_filter_key:
  "map_of (filter (\<lambda>nc. fst nc \<noteq> c) xs) k = (if k = c then None else map_of xs k)"
  by (induction xs) auto

lemma get_column_Inr:
  "get_column df c = Inr rows \<longleftrightarrow> map_of (cols df) c = Some (ListCol rows)"
  by (auto simp: get_column_def split: option.splits column.splits)

lemma drop_in_place_Inr:
  "drop_in_place df c = Inr df' \<Longrightarrow>
   cols df' = filter (\<lambda>nc. fst nc \<noteq> c) (cols df) \<and> nrows df' = nrows df"
  by (auto simp: drop_in_place_def split: if_splits)

lemma process_columns_inv:
  "memo_inv (stem env) s \<Longrightarrow> process_columns env cs v df2 feats s = (r, s') \<Longrightarrow>
   memo_inv (stem env) s'"
proof (induction cs arbitrary: v df2 feats s)
  case Nil
  then show ?case by simp
next
  case (Cons c cs)
  from Cons.prems show ?case
  proof (cases rule: process_columns_step)
    case (nocol e)
    with Cons.prems show ?thesis by simp
  next
    case (fail rows e)
    with after_column_inv(1) [OF Cons.prems(1)] show ?thesis by simp
  next
    case (step rows X v' df2' f)
    from Cons.IH [OF after_column_inv(1) [OF Cons.prems(1)] step(5)] show ?thesis .
  qed
qed

lemma process_columns_keys:
  "memo_inv (stem env) s \<Longrightarrow> process_columns env cs v df2 feats s = (r, s') \<Longrightarrow>
   fst ` set (memo s) \<subseteq> fst ` set (memo s')"
proof (induction cs arbitrary: v df2 feats s)
  case Nil
  then show ?case by simp
next
  case (Cons c cs)
  from Cons.prems show ?case
  proof (cases rule: process_columns_step)
    case (nocol e)
    with Cons.prems show ?thesis by simp
  next
    case (fail rows e)
    with after_column_inv(2) [OF Cons.prems(1)] show ?thesis by simp
  next
    case (step rows X v' df2' f)
    from Cons.IH [OF after_column_inv(1) [OF Cons.prems(1)] step(5)]
      after_column_inv(2) [OF Cons.prems(1), where c = c and rows = rows]
    show ?thesis by simp
  qed
qed

lemma process_columns_fit_mono:
  "memo_inv (stem env) s \<Longrightarrow> process_columns env cs v df2 feats s = (r, s') \<Longrightarrow>
   Fit c' d \<in> set (trace s) \<Longrightarrow> Fit c' d \<in> set (trace s')"
proof (induction cs arbitrary: v df2 feats s)
  case Nil
  then show ?case by simp
next
  case (Cons c cs)
  from Cons.prems(1,2) show ?case
  proof (cases rule: process_columns_step)
    case (nocol e)
    with Cons.prems show ?thesis by simp
  next
    case (fail rows e)
    with after_column_inv(3) [OF Cons.prems(1)] Cons.prems(3) show ?thesis by simp
  next
    case (step rows X v' df2' f)
    from Cons.prems(3) after_column_inv(3) [OF Cons.prems(1)]
    have "Fit c' d \<in> set (trace (after_column (stem env) c rows s))" by simp
    from Cons.IH [OF after_column_inv(1) [OF Cons.prems(1)] step(5) this] show ?thesis .
  qed
qed

lemma process_columns_fit_origin:
  "memo_inv (stem env) s \<Longrightarrow> process_columns env cs v df2 feats s = (r, s') \<Longrightarrow>
   Fit c' d \<in> set (trace s') \<Longrightarrow>
   Fit c' d \<in> set (trace s)
   \<or> (\<exists>rows. map_of (cols df2) c' = Some (ListCol rows)
         \<and> d = map (normalized_doc (stem env)) rows)"
proof (induction cs arbitrary: v df2 feats s)
  case Nil
  then show ?case by simp
next
  case (Cons c cs)
  from Cons.prems(1,2) show ?case
  proof (cases rule: process_columns_step)
    case (nocol e)
    with Cons.prems show ?thesis by simp
  next
    case (fail rows e)
    with after_column_inv(3) [OF Cons.prems(1), of c' d c rows] Cons.prems(3) show ?thesis
      by (auto simp: get_column_Inr)
  next
    case (step rows X v' df2' f)
    from Cons.IH [OF after_column_inv(1) [OF Cons.prems(1)] step(5) Cons.prems(3)]
    show ?thesis
    proof
      assume "Fit c' d \<in> set (trace (after_column (stem env) c rows s))"
      with after_column_inv(3) [OF Cons.prems(1), of c' d c rows] step(1) show ?thesis
        by (auto simp: get_column_Inr)
    next
      assume "\<exists>rows. map_of (cols df2') c' = Some (ListCol rows)
         \<and> d = map (normalized_doc (stem env)) rows"
      then obtain rows' where "map_of (cols df2') c' = Some (ListCol rows')"
        and d: "d = map (normalized_doc (stem env)) rows'" by blast
      with drop_in_place_Inr [OF step(3)] have "map_of (cols df2) c' = Some (ListCol rows')"
        by (simp add: map_of_filter_key split: if_splits)
      with d show ?thesis by blast
    qed
  qed
qed

lemma process_columns_success:
  "memo_inv (stem env) s \<Longrightarrow> process_columns env cs v df2 feats s = (Inr (df2', feats'), s') \<Longrightarrow>
   cols df2' = filter (\<lambda>nc. fst nc \<notin> set cs) (cols df2) \<and> nrows df2' = nrows df2"
proof (induction cs arbitrary: v df2 feats s)
  case Nil
  then show ?case by simp
next
  case (Cons c cs)
  from Cons.prems show ?case
  proof (cases rule: process_columns_step)
    case (nocol e)
    then show ?thesis by simp
  next
    case (fail rows e)
    then show ?thesis by simp
  next
    case (step rows X v' df2'' f)
    from Cons.IH [OF after_column_inv(1) [OF Cons.prems(1)] step(5)] drop_in_place_Inr [OF step(3)]
    show ?thesis by (simp add: conj_commute)
  qed
qed

lemma process_columns_covers:
  "memo_inv (stem env) s \<Longrightarrow> process_columns env cs v df2 feats s = (Inr (df2', feats'), s') \<Longrightarrow>
   c' \<in> set cs \<Longrightarrow>
   \<exists>rows. map_of (cols df2) c' = Some (ListCol rows)
     \<and> column_tokens rows \<subseteq> fst ` set (memo s')
     \<and> Fit c' (map (normalized_doc (stem env)) rows) \<in> set (trace s')"
proof (induction cs arbitrary: v df2 feats s)
  case Nil
  then show ?case by simp
next
  case (Cons c cs)
  from Cons.prems(1,2) show ?case
  proof (cases rule: process_columns_step)
    case (nocol e)
    then show ?thesis by simp
  next
    case (fail rows e)
    then show ?thesis by simp
  next
    case (step rows X v' df2'' f)
    note inv = after_column_inv(1) [OF Cons.prems(1), of c rows]
    show ?thesis
    proof (cases "c' = c")
      case True
      from step(1) have col: "map_of (cols df2) c = Some (ListCol rows)"
        by (simp add: get_column_Inr)
      from after_column_inv(2) [OF Cons.prems(1), of c rows] process_columns_keys [OF inv step(5)]
      have "column_tokens rows \<subseteq> fst ` set (memo s')" by blast
      moreover from after_column_inv(3) [OF Cons.prems(1), of c "map (normalized_doc (stem env)) rows" c rows]
      have "Fit c (map (normalized_doc (stem env)) rows)
              \<in> set (trace (after_column (stem env) c rows s))" by simp
      from process_columns_fit_mono [OF inv step(5) this]
      have "Fit c (map (normalized_doc (stem env)) rows) \<in> set (trace s')" .
      ultimately show ?thesis using col True by blast
    next
      case False
      with Cons.prems(3) have "c' \<in> set cs" by simp
      from Cons.IH [OF inv step(5) this] obtain rows' where
        col: "map_of (cols df2'') c' = Some (ListCol rows')"
        and rest: "column_tokens rows' \<subseteq> fst ` set (memo s')"
          "Fit c' (map (normalized_doc (stem env)) rows') \<in> set (trace s')" by blast
      from col drop_in_place_Inr [OF step(3)] have "map_of (cols df2) c' = Some (ListCol rows')"
        by (simp add: map_of_filter_key split: if_splits)
      with rest show ?thesis by blast
    qed
  qed
qed


section \<open>The tokenizing step and the whole run\<close>

lemma text_expr_Inr:
  "text_expr env df t = Inr col \<Longrightarrow>
   map_of (cols df) t \<noteq> None \<and> (\<exists>rows. col = ListCol rows)
   \<and> (\<forall>cells. map_of (cols df) t = Some (StrCol cells)
         \<longrightarrow> col = ListCol (map (map_option (tokenize env)) cells))"
  by (auto simp: text_expr_def split: option.splits column.splits sum.splits)

lemma text_exprs_Inr:
  "text_exprs env df ts = Inr ncs \<Longrightarrow>
   map fst ncs = ts \<and> (\<forall>nc \<in> set ncs. text_expr env df (fst nc) = Inr (snd nc))"
proof (induction ts arbitrary: ncs)
  case Nil
  then show ?case by simp
next
  case (Cons t ts)
  from Cons.prems obtain col rest where "text_expr env df t = Inr col"
    and "text_exprs env df ts = Inr rest" and "ncs = (t, col) # rest"
    by (auto split: sum.splits)
  with Cons.IH [of rest] show ?case by simp
qed

lemma assign_columns_Cons:
  "assign_columns cs (nc # ncs) = assign_columns (dict_set cs (fst nc) (snd nc)) ncs"
  by (simp add: assign_columns_def)

lemma map_of_assign_columns:
  "\<forall>nc \<in> set ncs. f (fst nc) = Inr (snd nc) \<Longrightarrow>
   map_of (assign_columns cs ncs) k
     = (if k \<in> fst ` set ncs then (case f k of Inl e \<Rightarrow> None | Inr col \<Rightarrow> Some col)
        else map_of cs k)"
proof (induction ncs arbitrary: cs)
  case Nil
  show ?case by (simp add: assign_columns_def)
next
  case (Cons nc ncs)
  from Cons.prems have rest: "\<forall>nc \<in> set ncs. f (fst nc) = Inr (snd nc)"
    and here: "f (fst nc) = Inr (snd nc)" by simp_all
  show ?case
  proof (cases "k \<in> fst ` set ncs")
    case True
    with Cons.IH [OF rest] show ?thesis by (simp add: assign_columns_Cons)
  next
    case False
    with Cons.IH [OF rest, of "dict_set cs (fst nc) (snd nc)"] here show ?thesis
      by (simp add: assign_columns_Cons map_of_dict_set)
  qed
qed

lemma filter_dict_set:
  "k \<in> S \<Longrightarrow> filter (\<lambda>nc. fst nc \<notin> S) (dict_set d k v) = filter (\<lambda>nc. fst nc \<notin> S) d"
  by (induction d) auto

lemma filter_assign_columns:
  "fst ` set ncs \<subseteq> S \<Longrightarrow>
   filter (\<lambda>nc. fst nc \<notin> S) (assign_columns cs ncs) = filter (\<lambda>nc. fst nc \<notin> S) cs"
  by (induction ncs arbitrary: cs) (simp_all add: assign_columns_def filter_dict_set)

lemma with_columns_Inr:
  assumes "with_columns env d tc = Inr df2"
  obtains ncs where "text_exprs env d tc = Inr ncs"
    and "df2 = d\<lparr>cols := assign_columns (cols d) ncs\<rparr>"
  using assms by (auto simp: with_columns_def split: sum.splits option.splits)

lemma with_columns_lookup:
  assumes "with_columns env d tc = Inr df2"
  shows "map_of (cols df2) c
    = (if c \<in> set tc then (case text_expr env d c of Inl e \<Rightarrow> None | Inr col \<Rightarrow> Some col)
       else map_of (cols d) c)"
proof -
  from assms obtain ncs where ex: "text_exprs env d tc = Inr ncs"
    and df2: "df2 = d\<lparr>cols := assign_columns (cols d) ncs\<rparr>" by (rule with_columns_Inr)
  from text_exprs_Inr [OF ex] have names: "map fst ncs = tc"
    and vals: "\<forall>nc \<in> set ncs. text_expr env d (fst nc) = Inr (snd nc)" by simp_all
  from names have "fst ` set ncs = set tc" by (metis set_map)
  with map_of_assign_columns [OF vals, of "cols d" c] df2 show ?thesis by simp
qed

lemma with_columns_text_expr:
  assumes "with_columns env d tc = Inr df2" and "c \<in> set tc"
  shows "\<exists>col. text_expr env d c = Inr col \<and> map_of (cols df2) c = Some col"
proof -
  from assms(1) obtain ncs where ex: "text_exprs env d tc = Inr ncs" by (rule with_columns_Inr)
  from text_exprs_Inr [OF ex] have names: "map fst ncs = tc"
    and vals: "\<forall>nc \<in> set ncs. text_expr env d (fst nc) = Inr (snd nc)" by simp_all
  from names assms(2) have "c \<in> fst ` set ncs" by (metis set_map)
  with vals obtain col where "text_expr env d c = Inr col" by auto
  with with_columns_lookup [OF assms(1), of c] assms(2) show ?thesis by simp
qed

lemma with_columns_other:
  "with_columns env d tc = Inr df2 \<Longrightarrow> c \<notin> set tc \<Longrightarrow> map_of (cols df2) c = map_of (cols d) c"
  by (simp add: with_columns_lookup)

lemma with_columns_present:
  assumes "with_columns env d tc = Inr df2" and "c \<in> set tc"
  shows "map_of (cols d) c \<noteq> None"
  using with_columns_text_expr [OF assms] text_expr_Inr by blast

lemma with_columns_list:
  assumes "with_columns env d tc = Inr df2" and "c \<in> set tc"
  shows "\<exists>rows. map_of (cols df2) c = Some (ListCol rows)"
  using with_columns_text_expr [OF assms] text_expr_Inr by blast

lemma with_columns_col:
  assumes "with_columns env d tc = Inr df2" and "c \<in> set tc"
    and "map_of (cols d) c = Some (StrCol cells)"
  shows "map_of (cols df2) c = Some (ListCol (map (map_option (tokenize env)) cells))"
proof -
  from with_columns_text_expr [OF assms(1,2)] obtain col where
    e: "text_expr env d c = Inr col" and l: "map_of (cols df2) c = Some col" by blast
  from text_expr_Inr [OF e] assms(3) l show ?thesis by simp
qed

lemma with_columns_frame:
  assumes "with_columns env d tc = Inr df2"
  shows "nrows df2 = nrows d
    \<and> filter (\<lambda>nc. fst nc \<notin> set tc) (cols df2) = filter (\<lambda>nc. fst nc \<notin> set tc) (cols d)"
proof -
  from assms obtain ncs where ex: "text_exprs env d tc = Inr ncs"
    and df2: "df2 = d\<lparr>cols := assign_columns (cols d) ncs\<rparr>" by (rule with_columns_Inr)
  from text_exprs_Inr [OF ex] have "map fst ncs = tc" by simp
  then have "fst ` set ncs \<subseteq> set tc" by (metis set_map subset_refl)
  from filter_assign_columns [OF this] df2 show ?thesis by simp
qed

lemma text_columns_are_lists:
  assumes "with_columns env d tc = Inr df2" and "c \<in> set tc"
    and "map_of (cols d) c = Some (StrCol cells)"
  shows "get_column df2 c = Inr (map (map_option (tokenize env)) cells)"
  using with_columns_col [OF assms] by (simp add: get_column_Inr)

lemma transform_success:
  assumes "transform_text_data env df oh tc dropf vm maxdf mindf = (Inr (out, rm), s')"
  obtains d df2 v df2' feats where
    "get_dummies env df oh dropf = Inr d"
    "with_columns env d tc = Inr df2"
    "new_vectorizer env (vectorizer_class_of vm) maxdf mindf (stop env) = Inr v"
    "process_columns env tc v df2 [] init_state = (Inr (df2', feats), s')"
    "concat_horizontal (df2' # feats) = Inr out"
    "rm = reverse_memo (memo s')"
  using assms unfolding transform_text_data_def
  by (auto split: sum.splits prod.splits)

lemma transform_state:
  assumes "transform_text_data env df oh tc dropf vm maxdf mindf = (r, s')"
  obtains (early) "s' = init_state"
  | (loop) d df2 v r' where
    "get_dummies env df oh dropf = Inr d"
    "with_columns env d tc = Inr df2"
    "new_vectorizer env (vectorizer_class_of vm) maxdf mindf (stop env) = Inr v"
    "process_columns env tc v df2 [] init_state = (r', s')"
  using assms unfolding transform_text_data_def
  by (auto split: sum.splits prod.splits)

lemma transform_inv:
  assumes "transform_text_data env df oh tc dropf vm maxdf mindf = (r, s')"
  shows "memo_inv (stem env) s'"
  using assms
proof (cases rule: transform_state)
  case early
  then show ?thesis by (simp add: memo_inv_init)
next
  case (loop d df2 v r')
  from process_columns_inv [OF memo_inv_init loop(4)] show ?thesis .
qed

lemma transform_fit:
  assumes "transform_text_data env df oh tc dropf vm maxdf mindf = (r, s')"
    and "get_dummies env df oh dropf = Inr d" and "with_columns env d tc = Inr df2"
    and "Fit c docs \<in> set (trace s')"
  shows "\<exists>rows. map_of (cols df2) c = Some (ListCol rows)
    \<and> docs = map (normalized_doc (stem env)) rows"
  using assms(1)
proof (cases rule: transform_state)
  case early
  with assms(4) show ?thesis by (simp add: init_state_def)
next
  case (loop d' df2' v r')
  with assms(2,3) have "process_columns env tc v df2 [] init_state = (r', s')" by simp
  from process_columns_fit_origin [OF memo_inv_init this assms(4)] show ?thesis
    by (simp add: init_state_def)
qed

text \<open>
  C1: in every run of \<open>transform_text_data\<close>, whether it returns or raises, the stemmer
  is called at most once for each raw token \<open>w\<close>; every read of the memo for \<open>w\<close>
  returns the one stem cached for it; and the documents handed to the vectorizer for a
  text column are the rows of its tokenized column with every token replaced by its stem.
\<close>

theorem stem_once_per_token:
  assumes "transform_text_data env df oh tc dropf vm maxdf mindf = (r, s')"
  shows "count_list (trace s') (Stem w) \<le> 1
    \<and> (\<forall>v. Load w v \<in> set (trace s') \<longrightarrow> v = stem env w \<and> map_of (memo s') w = Some v)
    \<and> (\<forall>d df2 c docs. get_dummies env df oh dropf = Inr d \<longrightarrow> with_columns env d tc = Inr df2
          \<longrightarrow> Fit c docs \<in> set (trace s')
          \<longrightarrow> (\<exists>rows. map_of (cols df2) c = Some (ListCol rows)
                 \<and> docs = map (normalized_doc (stem env)) rows))"
proof -
  from transform_inv [OF assms] have inv: "memo_inv (stem env) s'" .
  then have "count_list (trace s') (Stem w) \<le> 1" by (simp add: memo_inv_def)
  moreover have "v = stem env w \<and> map_of (memo s') w = Some v"
    if "Load w v \<in> set (trace s')" for v
    using inv that by (simp add: memo_inv_def)
  moreover note transform_fit [OF assms]
  ultimately show ?thesis by blast
qed

theorem stem_once_per_token_witness:
  "transform_text_data example_env example_table2 [] [''title'', ''body''] False ''count'' 1 0
     = (Inr (example_frame2, example_reverse2), example_state2)
   \<and> Load ''cats'' ''cat'' \<in> set (trace example_state2)
   \<and> count_list (trace example_state2) (Stem ''cats'') \<le> 1
   \<and> map_of (memo example_state2) ''cats'' = Some (stem example_env ''cats'')"
  using stem_once_per_token [OF example_run2, of "''cats''"] example_run2
  by (simp add: example_state2_def)


section \<open>The tokenizer keeps empty pieces\<close>

lemma split_by_nonempty: "split_by sep s \<noteq> []"
  by (induction s) (auto split: list.splits)

lemma split_by_leading: "s \<noteq> [] \<Longrightarrow> hd s = sep \<Longrightarrow> [] \<in> set (split_by sep s)"
  by (cases s) auto

lemma split_by_single: "split_by sep s = [t] \<Longrightarrow> t = s"
  by (induction s arbitrary: t) (auto simp: split_by_nonempty split: list.splits if_splits)

lemma split_by_trailing: "s \<noteq> [] \<Longrightarrow> last s = sep \<Longrightarrow> last (split_by sep s) = []"
  by (induction s) (auto simp: split_by_nonempty split: list.splits if_splits dest: split_by_single)

lemma split_by_adjacent: "adjacent sep s \<Longrightarrow> [] \<in> set (tl (split_by sep s))"
proof (induction sep s rule: adjacent.induct)
  case (1 sep a b cs)
  show ?case
  proof (cases "a = sep \<and> b = sep")
    case True
    then show ?thesis by simp
  next
    case False
    with 1 have "[] \<in> set (tl (split_by sep (b # cs)))" by simp
    then show ?thesis
      by (cases "split_by sep (b # cs)") (auto simp: split_by_nonempty dest: list.set_sel(2))
  qed
qed simp_all

lemma split_by_empty_piece: "has_empty_piece sep s \<Longrightarrow> [] \<in> set (split_by sep s)"
  unfolding has_empty_piece_def
proof (elim disjE conjE)
  assume "s \<noteq> []" "hd s = sep"
  then show ?thesis by (rule split_by_leading)
next
  assume "s \<noteq> []" "last s = sep"
  from split_by_trailing [OF this] last_in_set [OF split_by_nonempty, of sep s]
  show ?thesis by simp
next
  assume "adjacent sep s"
  from split_by_adjacent [OF this] show ?thesis
    by (cases "split_by sep s") (auto simp: split_by_nonempty)
qed

section \<open>Null cells, empty texts and empty tokens\<close>


lemma transform_docs:
  assumes "transform_text_data env df oh tc dropf vm maxdf mindf = (r, s')"
    and "get_dummies env df oh dropf = Inr d"
    and "map_of (cols d) c = Some (StrCol cells)"
    and "Fit c docs \<in> set (trace s')"
  shows "c \<in> set tc
    \<and> docs = map (\<lambda>cell. normalized_doc (stem env) (map_option (tokenize env) cell)) cells"
  using assms(1)
proof (cases rule: transform_state)
  case early
  with assms(4) show ?thesis by (simp add: init_state_def)
next
  case (loop d' df2 v r')
  with assms(2) have wc: "with_columns env d tc = Inr df2" by simp
  from transform_fit [OF assms(1,2) wc assms(4)] obtain rows where
    rows: "map_of (cols df2) c = Some (ListCol rows)"
    and docs: "docs = map (normalized_doc (stem env)) rows" by blast
  have c: "c \<in> set tc"
  proof (rule ccontr)
    assume "c \<notin> set tc"
    from with_columns_other [OF wc this] rows assms(3) show False by simp
  qed
  from with_columns_col [OF wc c assms(3)] rows
  have "rows = map (map_option (tokenize env)) cells" by simp
  with docs c show ?thesis by simp
qed

text \<open>
  C4: a row whose tokens are null yields the document \<open>Unknown\<close> and leaves the state
  of the run as it was: nothing is added to the trace (no probe, stemmer call, write or
  read) and the memo is unchanged. In a run, the document handed to the vectorizer for a
  null cell of a text column is \<open>Unknown\<close>.
\<close>

theorem null_cell_unknown:
  "stem_row ps None s = (Inr ''Unknown'', s)
   \<and> (transform_text_data env df oh tc dropf vm maxdf mindf = (r, s')
        \<longrightarrow> get_dummies env df oh dropf = Inr d
        \<longrightarrow> map_of (cols d) c = Some (StrCol cells)
        \<longrightarrow> Fit c docs \<in> set (trace s')
        \<longrightarrow> i < length cells \<longrightarrow> cells ! i = None
        \<longrightarrow> length docs = length cells \<and> docs ! i = ''Unknown'')"
proof -
  have "stem_row ps None s = (Inr ''Unknown'', s)" by (simp add: stem_row_def)
  moreover have "length docs = length cells \<and> docs ! i = ''Unknown''"
    if "transform_text_data env df oh tc dropf vm maxdf mindf = (r, s')"
      "get_dummies env df oh dropf = Inr d" "map_of (cols d) c = Some (StrCol cells)"
      "Fit c docs \<in> set (trace s')" "i < length cells" "cells ! i = None"
    using transform_docs [OF that(1-4)] that(5,6) by (simp add: normalized_doc_def)
  ultimately show ?thesis by blast
qed

theorem null_cell_unknown_witness:
  "stem_row example_stem None init_state = (Inr ''Unknown'', init_state)
   \<and> Fit ''review'' [''good product'', ''Unknown'', ''good  product''] \<in> set (trace example_state)
   \<and> [Some ''Good products'', None, Some ''good  Product!!''] ! 1 = None
   \<and> [''good product'', ''Unknown'', ''good  product''] ! 1 = ''Unknown''"
  using null_cell_unknown [where env = example_env and df = example_table
      and oh = "[''category'']" and tc = "[''review'']" and dropf = False and vm = "''count''"
      and maxdf = 1 and mindf = 0 and r = "Inr (example_frame, example_reverse)" and s' = example_state
      and d = example_encoded and c = "''review''"
      and cells = "[Some ''Good products'', None, Some ''good  Product!!'']"
      and docs = "[''good product'', ''Unknown'', ''good  product'']" and i = 1
      and ps = example_stem and s = init_state]
    example_run example_dummies
  by (simp add: example_state_def example_encoded_def)

text \<open>
  The truth test of the loop is false for an empty list as it is for a null. No cell
  gives an empty list: the tokens of a present cell are the pieces of a split, and a
  split has at least one piece (lemma \<open>tokenize_nonempty\<close>).
\<close>

lemma empty_token_list_unknown: "stem_row ps (Some []) s = (Inr ''Unknown'', s)"
  by (simp add: stem_row_def)




text \<open>
  C10: the split keeps the empty piece of a cleaned text that starts or ends with a
  space or has two spaces in a row, and the tokenizing step gives the cell these tokens;
  when a run returns, the stemmer has been called on the empty token, the memo has it as
  a key, and the returned reverse memo lists it as a surface form of its stem.
\<close>

theorem empty_tokens_kept:
  "(has_empty_piece CHR '' '' (cleaned env str) \<longrightarrow> [] \<in> set (tokenize env str))
   \<and> (with_columns env d tc = Inr dt \<longrightarrow> c \<in> set tc
        \<longrightarrow> map_of (cols d) c = Some (StrCol cells)
        \<longrightarrow> get_column dt c = Inr (map (map_option (tokenize env)) cells))
   \<and> (transform_text_data env df oh tc dropf vm maxdf mindf = (Inr (out, rm), s')
        \<longrightarrow> get_dummies env df oh dropf = Inr d
        \<longrightarrow> c \<in> set tc
        \<longrightarrow> map_of (cols d) c = Some (StrCol cells)
        \<longrightarrow> Some str \<in> set cells
        \<longrightarrow> has_empty_piece CHR '' '' (cleaned env str)
        \<longrightarrow> Stem [] \<in> set (trace s')
            \<and> map_of (memo s') [] = Some (stem env [])
            \<and> (\<exists>l. (stem env [], l) \<in> set rm \<and> [] \<in> set l))"
proof -
  have tok: "[] \<in> set (tokenize env str)" if "has_empty_piece CHR '' '' (cleaned env str)"
    using that by (simp add: tokenize_def split_by_empty_piece)
  have col: "get_column dt c = Inr (map (map_option (tokenize env)) cells)"
    if "with_columns env d tc = Inr dt" "c \<in> set tc" "map_of (cols d) c = Some (StrCol cells)"
    using that by (rule text_columns_are_lists)
  have run: "Stem [] \<in> set (trace s')
            \<and> map_of (memo s') [] = Some (stem env [])
            \<and> (\<exists>l. (stem env [], l) \<in> set rm \<and> [] \<in> set l)"
    if ok: "transform_text_data env df oh tc dropf vm maxdf mindf = (Inr (out, rm), s')"
      and d: "get_dummies env df oh dropf = Inr d"
      and c: "c \<in> set tc"
      and cells: "map_of (cols d) c = Some (StrCol cells)"
      and cell: "Some str \<in> set cells"
      and piece: "has_empty_piece CHR '' '' (cleaned env str)"
  proof -
    from ok obtain d' df2' v df2'' feats where run:
      "get_dummies env df oh dropf = Inr d'" "with_columns env d' tc = Inr df2'"
      "process_columns env tc v df2' [] init_state = (Inr (df2'', feats), s')"
      "rm = reverse_memo (memo s')"
      by (rule transform_success)
    from run(1,2) d have wc: "with_columns env d tc = Inr df2'" by simp
    from with_columns_col [OF wc c cells]
    have lst: "map_of (cols df2') c = Some (ListCol (map (map_option (tokenize env)) cells))" .
    from process_columns_covers [OF memo_inv_init run(3) c] lst
    have "column_tokens (map (map_option (tokenize env)) cells) \<subseteq> fst ` set (memo s')" by simp
    moreover from cell tok [OF piece]
    have "[] \<in> column_tokens (map (map_option (tokenize env)) cells)"
      by (force simp: column_tokens_def)
    ultimately have key: "[] \<in> fst ` set (memo s')" by blast
    from transform_inv [OF ok] have inv: "memo_inv (stem env) s'" .
    from inv have dist': "distinct (map fst (memo s'))"
      and stems: "\<And>w v. (w, v) \<in> set (memo s') \<Longrightarrow> v = stem env w"
      and cnt: "\<And>w. w \<in> fst ` set (memo s') \<Longrightarrow> count_list (trace s') (Stem w) = 1"
      unfolding memo_inv_def by simp_all
    from cnt [OF key] have st: "Stem [] \<in> set (trace s')"
      using count_list_0_iff [of "trace s'" "Stem []"] by force
    from key obtain v' where mem0: "([], v') \<in> set (memo s')" by force
    with stems have mem: "([], stem env []) \<in> set (memo s')" by blast
    from dist' mem have lk: "map_of (memo s') [] = Some (stem env [])" by simp
    from mem have "stem env [] \<in> snd ` set (memo s')" by force
    then have "(stem env [], forms_of (memo s') (stem env [])) \<in> set rm"
      by (simp add: run(4) reverse_memo_entries)
    moreover from mem have "[] \<in> set (forms_of (memo s') (stem env []))"
      by (simp add: set_forms_of)
    ultimately show ?thesis using st lk by blast
  qed
  from tok col run show ?thesis by blast
qed

theorem empty_tokens_kept_witness:
  "has_empty_piece CHR '' '' (cleaned example_env ''good  Product!!'')
   \<and> tokenize example_env ''good  Product!!'' = [''good'', [], ''product'']
   \<and> with_columns example_env example_encoded [''review''] = Inr example_tokenized
   \<and> get_column example_tokenized ''review''
       = Inr [Some [''good'', ''products''], None, Some [''good'', [], ''product'']]
   \<and> transform_text_data example_env example_table [''category''] [''review''] False ''count'' 1 0
       = (Inr (example_frame, example_reverse), example_state)
   \<and> Stem [] \<in> set (trace example_state)
   \<and> map_of (memo example_state) [] = Some (stem example_env [])
   \<and> ([], [[]]) \<in> set example_reverse"
proof -
  have p: "has_empty_piece CHR '' '' (cleaned example_env ''good  Product!!'')"
    by (simp add: has_empty_piece_def example_defs)
  have t: "tokenize example_env ''good  Product!!'' = [''good'', [], ''product'']"
    by (simp add: example_defs)
  have t': "tokenize example_env ''Good products'' = [''good'', ''products'']"
    by (simp add: example_defs)
  have m: "map_of (cols example_encoded) ''review''
      = Some (StrCol [Some ''Good products'', None, Some ''good  Product!!''])"
    by (simp add: example_encoded_def)
  note inst = empty_tokens_kept [where env = example_env and df = example_table
      and oh = "[''category'']" and tc = "[''review'']" and dropf = False and vm = "''count''"
      and maxdf = 1 and mindf = 0 and out = example_frame and rm = example_reverse
      and s' = example_state and d = example_encoded and c = "''review''"
      and cells = "[Some ''Good products'', None, Some ''good  Product!!'']"
      and str = "''good  Product!!''" and dt = example_tokenized]
  from inst example_with_columns m
  have col: "get_column example_tokenized ''review''
       = Inr [Some [''good'', ''products''], None, Some [''good'', [], ''product'']]"
    by (simp add: t t')
  from inst example_run example_dummies p m
  have run: "Stem [] \<in> set (trace example_state)
    \<and> map_of (memo example_state) [] = Some (stem example_env [])" by simp
  from p t col run example_run example_with_columns show ?thesis
    by (simp add: example_reverse_def)
qed

section \<open>Names of the generated columns\<close>

text \<open>
  The claim C6 as stated fails: with the one-hot column \<open>a::word\<close> and the text column
  \<open>a\<close>, two lists that do not overlap, the category \<open>good\<close> and the term \<open>good\<close> get
  the same name.
\<close>

theorem name_collision_counterexample:
  "set [''a::word''] \<inter> set [''a''] = {}
   \<and> one_hot_name ''a::word'' ''good'' = feature_name ''a'' ''good''"
  by (simp add: one_hot_name_def feature_name_def)

lemma takeWhile_colon:
  "CHR '':'' \<notin> set c \<Longrightarrow> takeWhile (\<lambda>x. x \<noteq> CHR '':'') (c @ CHR '':'' # rest) = c"
  by (induction c) auto

text \<open>
  C6, amended: for lists that do not overlap and column names without a colon, the name
  of an indicator column is never the name of a text feature.
\<close>

theorem names_do_not_collide:
  assumes "set one_hot_cols \<inter> set text_cols = {}"
    and "c1 \<in> set one_hot_cols" and "c2 \<in> set text_cols"
    and "CHR '':'' \<notin> set c1" and "CHR '':'' \<notin> set c2"
  shows "one_hot_name c1 category \<noteq> feature_name c2 x"
proof
  assume eq: "one_hot_name c1 category = feature_name c2 x"
  have l: "takeWhile (\<lambda>x. x \<noteq> CHR '':'') (one_hot_name c1 category) = c1"
    using assms(4) by (simp add: one_hot_name_def takeWhile_colon)
  have r: "takeWhile (\<lambda>x. x \<noteq> CHR '':'') (feature_name c2 x) = c2"
    using assms(5) by (simp add: feature_name_def takeWhile_colon)
  from l r eq have "c1 = c2" by simp
  with assms(1-3) show False by blast
qed

theorem names_do_not_collide_witness:
  "set [''category''] \<inter> set [''review''] = {}
   \<and> one_hot_name ''category'' ''word::good'' \<noteq> feature_name ''review'' ''good''
   \<and> one_hot_name ''category'' ''word::good'' = ''category::word::good''"
  using names_do_not_collide [of "[''category'']" "[''review'']" "''category''" "''review''"
      "''word::good''" "''good''"]
  by (simp add: one_hot_name_def)


section \<open>The choice of the vectorizer\<close>

lemma tokenize_only_class: "tokenize (only_class k env) = tokenize env"
  by (simp add: fun_eq_iff tokenize_def cleaned_def only_class_def)

lemma text_expr_only_class: "text_expr (only_class k env) d t = text_expr env d t"
proof -
  have ns: "non_string (only_class k env) = non_string env" by (simp add: only_class_def)
  show ?thesis unfolding text_expr_def tokenize_only_class ns ..
qed

lemma text_exprs_only_class: "text_exprs (only_class k env) d ts = text_exprs env d ts"
  by (induction ts) (simp_all add: text_expr_only_class split: sum.splits)

lemma with_columns_only_class: "with_columns (only_class k env) d tc = with_columns env d tc"
proof -
  have r: "on_repeat (only_class k env) = on_repeat env" by (simp add: only_class_def)
  show ?thesis unfolding with_columns_def text_exprs_only_class r ..
qed

lemma fit_transform_only_class:
  "v_class v = k \<Longrightarrow> fit_transform (only_class k env) v docs = fit_transform env v docs"
  by (simp add: fit_transform_def only_class_def)

lemma fit_transform_Inr:
  "fit_transform env v docs = Inr (X, v') \<Longrightarrow>
   \<exists>vocabulary. learn env (v_class v) (v_max_df v) (v_min_df v) (v_stop_words v) docs
       = Inr (X, vocabulary)
     \<and> v' = v\<lparr>v_vocabulary := Some vocabulary\<rparr>
     \<and> get_feature_names_out v' = Inr vocabulary"
  by (auto simp: fit_transform_def get_feature_names_out_def split: sum.splits)

lemma process_columns_only_class:
  "v_class v = k \<Longrightarrow>
   process_columns (only_class k env) cs v df2 feats s = process_columns env cs v df2 feats s"
proof (induction cs arbitrary: v df2 feats s)
  case Nil
  show ?case by simp
next
  case (Cons c cs)
  have st: "stem (only_class k env) = stem env" by (simp add: only_class_def)
  have ft: "fit_transform (only_class k env) v docs = fit_transform env v docs" for docs
    using Cons.prems by (rule fit_transform_only_class)
  have ih: "process_columns (only_class k env) cs v' df2' feats' s'
    = process_columns env cs v' df2' feats' s'"
    if "fit_transform env v docs = Inr (X, v')" for docs X v' df2' feats' s'
  proof -
    from fit_transform_Inr [OF that] Cons.prems have "v_class v' = k" by auto
    then show ?thesis by (rule Cons.IH)
  qed
  show ?case
    by (simp add: st ft ih Let_def split: sum.splits prod.splits)
qed

text \<open>
  C8: a run with the method \<open>tfidf\<close> uses the tf-idf vectorizer and no other: it is
  the run in a library whose count vectorizer has been replaced by the tf-idf
  vectorizer. A run with any other method uses the count vectorizer and no other, and
  is the run of the method \<open>count\<close>, result, errors and state alike: no value of the
  method is rejected.
\<close>

theorem vectorize_method_selects:
  "vectorizer_class_of ''tfidf'' = TfidfVectorizer
   \<and> transform_text_data env df oh tc dropf ''tfidf'' maxdf mindf
       = transform_text_data (only_class TfidfVectorizer env) df oh tc dropf ''tfidf'' maxdf mindf
   \<and> (vm \<noteq> ''tfidf'' \<longrightarrow>
        vectorizer_class_of vm = CountVectorizer
        \<and> transform_text_data env df oh tc dropf vm maxdf mindf
            = transform_text_data (only_class CountVectorizer env) df oh tc dropf vm maxdf mindf
        \<and> transform_text_data env df oh tc dropf vm maxdf mindf
            = transform_text_data env df oh tc dropf ''count'' maxdf mindf)"
proof -
  have run: "transform_text_data env df oh tc dropf m maxdf mindf
       = transform_text_data (only_class k env) df oh tc dropf m maxdf mindf"
    if k: "vectorizer_class_of m = k" for m k
  proof -
    have new: "new_vectorizer (only_class k env) k maxdf mindf sw = new_vectorizer env k maxdf mindf sw"
      for sw by (simp add: new_vectorizer_def only_class_def)
    have cls: "v_class v = k" if "new_vectorizer env k maxdf mindf sw = Inr v" for v sw
      using that by (auto simp: new_vectorizer_def split: option.splits)
    have gd: "get_dummies (only_class k env) = get_dummies env"
      and sp: "stop (only_class k env) = stop env" by (simp_all add: only_class_def)
    show ?thesis
      unfolding transform_text_data_def k gd sp with_columns_only_class new
      by (auto simp: process_columns_only_class [OF cls] split: sum.splits)
  qed
  have count: "transform_text_data env df oh tc dropf vm maxdf mindf
            = transform_text_data env df oh tc dropf ''count'' maxdf mindf" if "vm \<noteq> ''tfidf''"
  proof -
    from that have eq: "vectorizer_class_of vm = vectorizer_class_of ''count''"
      by (simp add: vectorizer_class_of_def)
    show ?thesis unfolding transform_text_data_def eq ..
  qed
  have t: "vectorizer_class_of ''tfidf'' = TfidfVectorizer"
    by (simp add: vectorizer_class_of_def)
  have c: "vectorizer_class_of vm = CountVectorizer" if "vm \<noteq> ''tfidf''"
    using that by (simp add: vectorizer_class_of_def)
  from run [OF t] run [OF c] count t c show ?thesis by blast
qed

theorem vectorize_method_selects_witness:
  "''bogus'' \<noteq> ''tfidf''
   \<and> vectorizer_class_of ''bogus'' = CountVectorizer
   \<and> transform_text_data example_env example_table2 [] [''title'', ''body''] False ''bogus'' 1 0
       = (Inr (example_frame2, example_reverse2), example_state2)
   \<and> transform_text_data (only_class CountVectorizer example_env) example_table2 []
         [''title'', ''body''] False ''bogus'' 1 0
       = (Inr (example_frame2, example_reverse2), example_state2)
   \<and> transform_text_data (only_class TfidfVectorizer example_env) example_table2 []
         [''title'', ''body''] False ''tfidf'' 1 0
       = transform_text_data example_env example_table2 [] [''title'', ''body''] False ''tfidf'' 1 0
   \<and> transform_text_data example_env example_table2 [] [''title'', ''body''] False ''tfidf'' 1 0
       \<noteq> transform_text_data example_env example_table2 [] [''title'', ''body''] False ''bogus'' 1 0"
proof -
  have ne: "''bogus'' \<noteq> ''tfidf''" by simp
  note t = vectorize_method_selects [where vm = "''bogus''" and env = example_env
      and df = example_table2 and oh = "[]" and tc = "[''title'', ''body'']" and dropf = False
      and maxdf = 1 and mindf = 0]
  from t ne have c: "vectorizer_class_of ''bogus'' = CountVectorizer" by blast
  from t ne have 1: "transform_text_data example_env example_table2 [] [''title'', ''body'']
      False ''bogus'' 1 0
    = transform_text_data example_env example_table2 [] [''title'', ''body''] False ''count'' 1 0"
    by blast
  from t ne have 2: "transform_text_data (only_class CountVectorizer example_env) example_table2
      [] [''title'', ''body''] False ''bogus'' 1 0
    = transform_text_data example_env example_table2 [] [''title'', ''body''] False ''bogus'' 1 0"
    by simp
  from t have 3: "transform_text_data (only_class TfidfVectorizer example_env) example_table2 []
         [''title'', ''body''] False ''tfidf'' 1 0
       = transform_text_data example_env example_table2 [] [''title'', ''body''] False ''tfidf'' 1 0"
    by simp
  from example_run2_tfidf 1 example_run2
  have 4: "transform_text_data example_env example_table2 [] [''title'', ''body''] False ''tfidf'' 1 0
       \<noteq> transform_text_data example_env example_table2 [] [''title'', ''body''] False ''bogus'' 1 0"
    by auto
  from ne c 1 2 3 4 example_run2 show ?thesis by simp
qed

section \<open>Row counts and the rows of the features\<close>

lemma from_numpy_Inr:
  assumes "from_numpy X names = Inr f"
    and "list_all (\<lambda>row. length row = length names) X"
  shows "has_rows (length X) f"
proof (cases "length names = length X")
  case True
  from assms(2) True have w: "width X names = length X"
    by (cases X) (simp_all add: width_def)
  from assms(2) True have "length (X ! i) = length X" if "i < length X" for i
    using that by (simp add: list_all_length)
  with assms(1) True w show ?thesis
    by (auto simp: from_numpy_def has_rows_def list_all_iff split: if_splits)
next
  case False
  with assms(1) show ?thesis
    by (auto simp: from_numpy_def has_rows_def list_all_iff split: if_splits)
qed

lemma process_columns_feats:
  assumes vec: "\<And>k maxdf mindf sw docs X vocabulary.
      learn env k maxdf mindf sw docs = Inr (X, vocabulary)
      \<Longrightarrow> length X = length docs \<and> list_all (\<lambda>row. length row = length vocabulary) X"
  shows "memo_inv (stem env) s \<Longrightarrow>
    process_columns env cs v df2 feats s = (Inr (df2', feats'), s') \<Longrightarrow>
    (\<And>c rows. map_of (cols df2) c = Some (ListCol rows) \<Longrightarrow> length rows = n) \<Longrightarrow>
    list_all (has_rows n) feats \<Longrightarrow> list_all (has_rows n) feats'"
proof (induction cs arbitrary: v df2 feats s)
  case Nil
  then show ?case by simp
next
  case (Cons c cs)
  from Cons.prems(1,2) show ?case
  proof (cases rule: process_columns_step)
    case (nocol e)
    then show ?thesis by simp
  next
    case (fail rows e)
    then show ?thesis by simp
  next
    case (step rows X v' df2'' f vocabulary)
    from step(1) have "map_of (cols df2) c = Some (ListCol rows)" by (simp add: get_column_Inr)
    then have n: "length rows = n" by (rule Cons.prems(3))
    from fit_transform_Inr [OF step(2)] step(6) have
      "learn env (v_class v) (v_max_df v) (v_min_df v) (v_stop_words v)
         (map (normalized_doc (stem env)) rows) = Inr (X, vocabulary)" by auto
    from vec [OF this] n have X: "length X = n"
      and w: "list_all (\<lambda>row. length row = length (map (feature_name c) vocabulary)) X"
      by simp_all
    from from_numpy_Inr [OF step(4) w] X have f: "has_rows n f" by simp
    have later: "length rows' = n" if "map_of (cols df2'') c' = Some (ListCol rows')" for c' rows'
    proof -
      from that drop_in_place_Inr [OF step(3)] have "map_of (cols df2) c' = Some (ListCol rows')"
        by (simp add: map_of_filter_key split: if_splits)
      then show ?thesis by (rule Cons.prems(3))
    qed
    from f Cons.prems(4) have "list_all (has_rows n) (feats @ [f])" by simp
    from Cons.IH [OF after_column_inv(1) [OF Cons.prems(1)] step(5) later this]
    show ?thesis .
  qed
qed

lemma pad_column_id: "col_length col = n \<Longrightarrow> pad_column n col = col"
  by (cases col) simp_all

lemma foldr_max_same:
  "list_all (\<lambda>t. nrows t = n) ts \<Longrightarrow> foldr max (map nrows ts) 0 = (if ts = [] then 0 else n)"
  by (induction ts) auto

lemma concat_horizontal_same:
  assumes "list_all (has_rows n) ts" and "ts \<noteq> []" and "concat_horizontal ts = Inr out"
  shows "nrows out = n \<and> cols out = concat (map cols ts) \<and> wf_table out"
proof -
  from assms(1) have "list_all (\<lambda>t. nrows t = n) ts" by (simp add: list_all_iff has_rows_def)
  from foldr_max_same [OF this] assms(2) have n: "foldr max (map nrows ts) 0 = n" by simp
  have pad: "map (\<lambda>nc. (fst nc, pad_column n (snd nc))) (cols t) = cols t" if "t \<in> set ts" for t
  proof -
    from assms(1) that have "list_all (\<lambda>nc. col_length (snd nc) = n) (cols t)"
      by (simp add: list_all_iff has_rows_def)
    then show ?thesis by (intro map_idI) (simp add: list_all_iff pad_column_id)
  qed
  then have cs: "concat (map (\<lambda>t. map (\<lambda>nc. (fst nc, pad_column n (snd nc))) (cols t)) ts)
    = concat (map cols ts)"
    by (simp cong: map_cong)
  from assms(3) have out: "out = \<lparr>nrows = n, cols = concat (map cols ts)\<rparr>"
    and dist: "distinct (map fst (concat (map cols ts)))"
    by (simp_all add: concat_horizontal_def Let_def n cs split: if_splits)
  from assms(1) have "list_all (\<lambda>nc. col_length (snd nc) = n) (concat (map cols ts))"
    by (auto simp: list_all_iff has_rows_def)
  with out dist show ?thesis by (simp add: wf_table_def)
qed

text \<open>
  The count of the rows is kept: when the encoder returns a well-formed table with the
  rows of its input, the text columns are string columns, and the vectorizer learns a
  matrix with one row for each document and one entry in each row for each term of the
  vocabulary, the table a run returns has the row count of the input table, all its
  columns have that many rows, and its first columns are the columns of the encoded table
  that are not text columns, cells and order unchanged.
\<close>

lemma row_count_preserved:
  assumes run: "transform_text_data env df oh tc dropf vm maxdf mindf = (Inr (out, rm), s')"
    and d: "get_dummies env df oh dropf = Inr d"
    and wf: "wf_table d" and n: "nrows d = nrows df"
    and strs: "\<forall>c \<in> set tc. \<exists>cells. map_of (cols d) c = Some (StrCol cells)"
    and vec: "\<forall>k maxdf mindf sw docs X vocabulary.
      learn env k maxdf mindf sw docs = Inr (X, vocabulary)
      \<longrightarrow> length X = length docs \<and> list_all (\<lambda>row. length row = length vocabulary) X"
  shows "nrows out = nrows df \<and> wf_table out
    \<and> take (length (filter (\<lambda>nc. fst nc \<notin> set tc) (cols d))) (cols out)
        = filter (\<lambda>nc. fst nc \<notin> set tc) (cols d)"
proof -
  from run d obtain df2 v df2' feats where
    wc: "with_columns env d tc = Inr df2"
    and pc: "process_columns env tc v df2 [] init_state = (Inr (df2', feats), s')"
    and cc: "concat_horizontal (df2' # feats) = Inr out"
    by (auto elim: transform_success)
  from wf have len: "col_length col = nrows df" if "(c, col) \<in> set (cols d)" for c col
    using that n by (auto simp: wf_table_def list_all_iff)
  have rows: "length rows = nrows df" if "map_of (cols df2) c = Some (ListCol rows)" for c rows
  proof (cases "c \<in> set tc")
    case True
    with strs obtain cells where cells: "map_of (cols d) c = Some (StrCol cells)" by blast
    from with_columns_col [OF wc True cells] that
    have "rows = map (map_option (tokenize env)) cells" by simp
    with len [OF map_of_SomeD [OF cells]] show ?thesis by simp
  next
    case False
    from with_columns_other [OF wc False] that
    have "map_of (cols d) c = Some (ListCol rows)" by simp
    from len [OF map_of_SomeD [OF this]] show ?thesis by simp
  qed
  from vec have vec': "\<And>k maxdf mindf sw docs X vocabulary.
      learn env k maxdf mindf sw docs = Inr (X, vocabulary)
      \<Longrightarrow> length X = length docs \<and> list_all (\<lambda>row. length row = length vocabulary) X"
    by blast
  from process_columns_feats [OF vec' memo_inv_init pc rows]
  have feats: "list_all (has_rows (nrows df)) feats" by simp
  from process_columns_success [OF memo_inv_init pc] with_columns_frame [OF wc]
  have kept: "cols df2' = filter (\<lambda>nc. fst nc \<notin> set tc) (cols d)"
    and n': "nrows df2' = nrows df" using n by simp_all
  from kept len have "has_rows (nrows df) df2'"
    by (auto simp: has_rows_def n' list_all_iff)
  with feats have "list_all (has_rows (nrows df)) (df2' # feats)" by simp
  from concat_horizontal_same [OF this _ cc]
  have "nrows out = nrows df" "wf_table out" "cols out = cols df2' @ concat (map cols feats)"
    by simp_all
  with kept show ?thesis by simp
qed

text \<open>
  C7: the run of the example table, of three rows, whose text column gives three
  features. \<^verbatim>\<open>pl.from_numpy\<close> is called without an orientation and the matrix has as
  many rows as there are names, so the library reads it by columns: the feature column
  of a term holds a row of the matrix, the counts of all terms in one document, and not
  the counts of the term in the rows of the table. The table that is returned has the
  three rows of the input, and the columns that are not features keep their cells, but
  the row of the null cell, whose document is \<open>Unknown\<close>, has the count 1 for the term
  \<open>good\<close> and the count 0 for the term \<open>unknown\<close>, where the columns of the matrix
  have 0 and 1: the order of the rows is not preserved in the features.
\<close>

theorem feature_rows_transposed:
  "transform_text_data example_env example_table [''category''] [''review''] False ''count'' 1 0
     = (Inr (example_frame, example_reverse), example_state)
   \<and> nrows example_frame = nrows example_table
   \<and> Fit ''review'' [''good product'', ''Unknown'', ''good  product''] \<in> set (trace example_state)
   \<and> learn example_env CountVectorizer 1 0 (stop example_env)
        [''good product'', ''Unknown'', ''good  product'']
       = Inr ([[1, 1, 0], [0, 0, 1], [1, 1, 0]], [''good'', ''product'', ''unknown''])
   \<and> map_of (cols example_frame) ''review::word::good'' = Some (NumCol [Some 1, Some 1, Some 0])
   \<and> map_of (cols example_frame) ''review::word::product'' = Some (NumCol [Some 0, Some 0, Some 1])
   \<and> map_of (cols example_frame) ''review::word::unknown'' = Some (NumCol [Some 1, Some 1, Some 0])
   \<and> map (\<lambda>row. row ! 0) [[1, 1, 0], [0, 0, 1], [1, 1, 0 :: real]] = [1, 0, 1]
   \<and> map (\<lambda>row. row ! 2) [[1, 1, 0], [0, 0, 1], [1, 1, 0 :: real]] = [0, 1, 0]"
proof -
  have "learn example_env CountVectorizer 1 0 (stop example_env)
        [''good product'', ''Unknown'', ''good  product'']
       = Inr ([[1, 1, 0], [0, 0, 1], [1, 1, 0]], [''good'', ''product'', ''unknown''])"
    by (simp add: example_defs)
  with example_run show ?thesis
    by (simp add: example_frame_def example_table_def example_state_def)
qed

section \<open>One vectorizer for all columns, or one for each\<close>

lemma fit_transform_same_config:
  assumes "same_config v v0"
  shows "case fit_transform env v docs of
           Inl e \<Rightarrow> fit_transform env v0 docs = Inl e
         | Inr (X, v') \<Rightarrow>
             (\<exists>v0'. fit_transform env v0 docs = Inr (X, v0')
                \<and> get_feature_names_out v0' = get_feature_names_out v' \<and> same_config v' v0)"
  using assms
  by (auto simp: fit_transform_def same_config_def get_feature_names_out_def
      split: sum.splits)

lemma process_columns_fresh_eq:
  "same_config v v0 \<Longrightarrow>
   process_columns env cs v df2 feats s = process_columns_fresh env cs (Inr v0) df2 feats s"
proof (induction cs arbitrary: v df2 feats s)
  case Nil
  show ?case by simp
next
  case (Cons c cs)
  show ?case
  proof (cases "get_column df2 c")
    case (Inl e)
    then show ?thesis by simp
  next
    case (Inr rows)
    obtain r1 s1 where st: "stem_column (stem env) rows [] s = (r1, s1)"
      by (cases "stem_column (stem env) rows [] s")
    show ?thesis
    proof (cases r1)
      case (Inl e)
      with Inr st show ?thesis by simp
    next
      case docs: (Inr docs)
      note view = fit_transform_same_config [OF Cons.prems, of env docs]
      show ?thesis
      proof (cases "fit_transform env v docs")
        case (Inl e)
        with view have "fit_transform env v0 docs = Inl e" by simp
        with Inl Inr st docs show ?thesis by simp
      next
        case fit: (Inr Xw)
        obtain X w where Xw: "Xw = (X, w)" by (cases Xw)
        with fit view obtain w0 where fit0: "fit_transform env v0 docs = Inr (X, w0)"
          and names: "get_feature_names_out w0 = get_feature_names_out w"
          and same: "same_config w v0"
          by auto
        note ih = Cons.IH [OF same]
        from Inr st docs fit Xw fit0 names ih show ?thesis
          by (simp add: Let_def split: sum.splits)
      qed
    qed
  qed
qed

text \<open>
  C9: when the constructor accepts the configuration, the run that reuses one
  vectorizer object for all text columns is the run that constructs a vectorizer for
  each text column: same result, same errors, same state. What a column gets from its
  vectorizer does not depend on the columns fitted before it.
\<close>

theorem vectorizer_reuse_equivalent:
  assumes "vectorizer_check env (vectorizer_class_of vm) maxdf mindf (stop env) = None"
  shows "transform_text_data env df oh tc dropf vm maxdf mindf
    = transform_text_data_fresh env df oh tc dropf vm maxdf mindf"
proof -
  from assms obtain v0 where
    v0: "new_vectorizer env (vectorizer_class_of vm) maxdf mindf (stop env) = Inr v0"
    by (simp add: new_vectorizer_def)
  have "same_config v0 v0" by (simp add: same_config_def)
  from process_columns_fresh_eq [OF this] show ?thesis
    unfolding transform_text_data_def transform_text_data_fresh_def
    by (simp add: v0 split: sum.splits)
qed

theorem vectorizer_reuse_equivalent_witness:
  "vectorizer_check example_env (vectorizer_class_of ''count'') 1 0 (stop example_env) = None
   \<and> transform_text_data_fresh example_env example_table2 [] [''title'', ''body''] False
       ''count'' 1 0
       = (Inr (example_frame2, example_reverse2), example_state2)"
  using vectorizer_reuse_equivalent [where env = example_env and vm = "''count''"
      and maxdf = 1 and mindf = 0 and df = example_table2
      and oh = "[]" and tc = "[''title'', ''body'']" and dropf = False]
    example_run2
  by (simp add: example_env_def)


section \<open>Errors of the configuration\<close>

text \<open>
  C3, amended: the function checks nothing itself. An error that the encoder raises,
  as for a column name that the table does not have, an error of the tokenizing step, as
  for a text column that the encoded table does not have (an unknown name, or a name of
  both lists that the encoder has used up), and an error that the vectorizer constructor
  raises are returned with the state of the run still initial: no column has been
  processed and nothing has been stemmed. The thresholds only reach the vectorizer: the
  function does not compare them, and with no text column and a constructor that accepts
  them the run returns the encoded table whatever their values.
\<close>

theorem errors_before_stemming:
  "(get_dummies env df oh dropf = Inl e
      \<longrightarrow> transform_text_data env df oh tc dropf vm maxdf mindf = (Inl e, init_state))
   \<and> (get_dummies env df oh dropf = Inr d \<longrightarrow> with_columns env d tc = Inl e
      \<longrightarrow> transform_text_data env df oh tc dropf vm maxdf mindf = (Inl e, init_state))
   \<and> (get_dummies env df oh dropf = Inr d \<longrightarrow> t \<in> set tc \<longrightarrow> map_of (cols d) t = None
      \<longrightarrow> (\<exists>e'. transform_text_data env df oh tc dropf vm maxdf mindf = (Inl e', init_state)))
   \<and> (get_dummies env df oh dropf = Inr d \<longrightarrow> with_columns env d tc = Inr dt
      \<longrightarrow> vectorizer_check env (vectorizer_class_of vm) maxdf mindf (stop env) = Some e
      \<longrightarrow> transform_text_data env df oh tc dropf vm maxdf mindf = (Inl e, init_state))
   \<and> (get_dummies env df oh dropf = Inr d
      \<longrightarrow> vectorizer_check env (vectorizer_class_of vm) maxdf mindf (stop env) = None
      \<longrightarrow> transform_text_data env df oh [] dropf vm maxdf mindf
            = (case concat_horizontal [d] of
                 Inl e' \<Rightarrow> (Inl e', init_state)
               | Inr out \<Rightarrow> (Inr (out, []), init_state)))"
proof -
  let ?run = "transform_text_data env df oh tc dropf vm maxdf mindf"
  have a: "?run = (Inl e, init_state)" if "get_dummies env df oh dropf = Inl e" for e
    using that by (simp add: transform_text_data_def)
  have b: "?run = (Inl e, init_state)"
    if "get_dummies env df oh dropf = Inr d" "with_columns env d tc = Inl e" for e
    using that by (simp add: transform_text_data_def)
  have c: "\<exists>e'. ?run = (Inl e', init_state)"
    if d: "get_dummies env df oh dropf = Inr d"
      and missing: "t \<in> set tc" "map_of (cols d) t = None"
  proof (cases "with_columns env d tc")
    case (Inl e')
    from b [OF d this] show ?thesis by blast
  next
    case (Inr df2')
    from with_columns_present [OF this missing(1)] missing(2) show ?thesis by simp
  qed
  have d: "?run = (Inl e, init_state)"
    if "get_dummies env df oh dropf = Inr d" "with_columns env d tc = Inr dt"
      "vectorizer_check env (vectorizer_class_of vm) maxdf mindf (stop env) = Some e"
    using that by (simp add: transform_text_data_def new_vectorizer_def)
  have e: "transform_text_data env df oh [] dropf vm maxdf mindf
            = (case concat_horizontal [d] of
                 Inl e' \<Rightarrow> (Inl e', init_state)
               | Inr out \<Rightarrow> (Inr (out, []), init_state))"
    if "get_dummies env df oh dropf = Inr d"
      "vectorizer_check env (vectorizer_class_of vm) maxdf mindf (stop env) = None"
    using that
    by (simp add: transform_text_data_def with_columns_def assign_columns_def
        new_vectorizer_def init_state_def reverse_memo_def split: sum.splits)
  from a b c d e show ?thesis by blast
qed

text \<open>
  The claim C3 as stated fails: with \<open>min_df = 0.9 > max_df = 0.1\<close> and no text
  column the run returns normally.
\<close>

theorem config_error_counterexample:
  "(1 / 10 :: real) < 9 / 10
   \<and> transform_text_data example_env example_table [] [] False ''count'' (1 / 10) (9 / 10)
       = (Inr (example_table, []), init_state)"
  by (simp add: example_defs example_table_def)

theorem errors_before_stemming_witness:
  "get_dummies example_env_checked example_table [''nope''] False = Inl (KeyError ''nope'')
   \<and> transform_text_data example_env_checked example_table [''nope''] [''review''] False
         ''count'' 1 0
       = (Inl (KeyError ''nope''), init_state)
   \<and> with_columns example_env_checked example_table [''nope''] = Inl (ColumnNotFound ''nope'')
   \<and> transform_text_data example_env_checked example_table [] [''nope''] False ''count'' 1 0
       = (Inl (ColumnNotFound ''nope''), init_state)
   \<and> map_of (cols example_encoded) ''category'' = None
   \<and> transform_text_data example_env_checked example_table [''category''] [''category''] False
         ''count'' 1 0
       = (Inl (ColumnNotFound ''category''), init_state)
   \<and> vectorizer_check example_env_checked (vectorizer_class_of ''count'') (- 1) 0
         (stop example_env_checked)
       = Some (LibraryError ''negative value for max_df or min_df'')
   \<and> transform_text_data example_env_checked example_table [] [''review''] False ''count'' (- 1) 0
       = (Inl (LibraryError ''negative value for max_df or min_df''), init_state)
   \<and> transform_text_data example_env_checked example_table [] [] False ''count'' (1 / 10) (9 / 10)
       = (Inr (example_table, []), init_state)"
proof -
  let ?env = example_env_checked
  have g1: "get_dummies ?env example_table [''nope''] False = Inl (KeyError ''nope'')"
    by (simp add: example_env_checked_def example_defs example_table_def)
  have g2: "get_dummies ?env example_table [] False = Inr example_table"
    by (simp add: example_env_checked_def example_defs)
  have g3: "get_dummies ?env example_table [''category''] False = Inr example_encoded"
    using example_dummies by (simp add: example_env_checked_def example_env_def)
  have w: "with_columns ?env example_table [''nope''] = Inl (ColumnNotFound ''nope'')"
    by (simp add: with_columns_def text_expr_def example_table_def)
  have w2: "with_columns ?env example_encoded [''category''] = Inl (ColumnNotFound ''category'')"
    by (simp add: with_columns_def text_expr_def example_encoded_def)
  have w3: "\<exists>df2. with_columns ?env example_table [''review''] = Inr df2"
    by (simp add: with_columns_def text_expr_def example_table_def example_env_checked_def
        example_env_def)
  have m: "map_of (cols example_table) ''nope'' = None" by (simp add: example_table_def)
  have m2: "map_of (cols example_encoded) ''category'' = None" by (simp add: example_encoded_def)
  have k: "vectorizer_check ?env (vectorizer_class_of ''count'') (- 1) 0 (stop ?env)
       = Some (LibraryError ''negative value for max_df or min_df'')"
    by (simp add: example_env_checked_def)
  have k0: "vectorizer_check ?env (vectorizer_class_of ''count'') (1 / 10) (9 / 10) (stop ?env)
       = None"
    by (simp add: example_env_checked_def)
  have c: "concat_horizontal [example_table] = Inr example_table"
    by (simp add: concat_horizontal_def example_table_def)
  note t = errors_before_stemming [where env = ?env and df = example_table
      and dropf = False and vm = "''count''"]
  from t [where oh = "[''nope'']" and tc = "[''review'']" and maxdf = 1 and mindf = 0
      and e = "KeyError ''nope''"] g1
  have 1: "transform_text_data ?env example_table [''nope''] [''review''] False
    ''count'' 1 0 = (Inl (KeyError ''nope''), init_state)" by blast
  from t [where oh = "[]" and tc = "[''nope'']" and maxdf = 1 and mindf = 0
      and d = example_table and e = "ColumnNotFound ''nope''" and t = "''nope''"] g2 w m
  have 2: "transform_text_data ?env example_table [] [''nope''] False ''count'' 1 0
       = (Inl (ColumnNotFound ''nope''), init_state)" by simp
  from t [where oh = "[''category'']" and tc = "[''category'']" and maxdf = 1 and mindf = 0
      and d = example_encoded and e = "ColumnNotFound ''category''" and t = "''category''"]
    g3 w2 m2
  have 3: "transform_text_data ?env example_table [''category''] [''category''] False
         ''count'' 1 0 = (Inl (ColumnNotFound ''category''), init_state)" by simp
  from w3 obtain df2 where w3': "with_columns ?env example_table [''review''] = Inr df2" ..
  from t [where oh = "[]" and tc = "[''review'']" and maxdf = "- 1" and mindf = 0
      and d = example_table and dt = df2
      and e = "LibraryError ''negative value for max_df or min_df''"] g2 w3' k
  have 4: "transform_text_data ?env example_table [] [''review''] False ''count'' (- 1) 0
       = (Inl (LibraryError ''negative value for max_df or min_df''), init_state)" by simp
  from t [where oh = "[]" and maxdf = "1 / 10" and mindf = "9 / 10" and d = example_table]
    g2 k0 c
  have 5: "transform_text_data ?env example_table [] [] False ''count'' (1 / 10) (9 / 10)
       = (Inr (example_table, []), init_state)" by simp
  from g1 w m2 k 1 2 3 4 5 show ?thesis by blast
qed

end
